theory Spec2Isabelle
  imports Complex_Main "HOL-Library.AList" "HOL-Library.Multiset"
begin

section \<open>Heredity: exact inference over a family gene model\<close>

text \<open>
  A shallow embedding of \<^verbatim>\<open>src/Ex3_Heredity/heredity.py\<close>.

  \<^item> A Python dict is an association list in insertion order, read with \<open>map_of\<close>;
    a dict has every key once, which is the predicate \<open>is_dict\<close>.
  \<^item> A Python set of names is a \<open>string set\<close>.  The order in which \<open>list(s)\<close>
    enumerates a set is not fixed by the language; it is the parameter \<open>list_of\<close>.
  \<^item> A missing key and a division by zero are values of \<open>py_error\<close>; a function
    that can raise returns \<open>py_error + 'a\<close>.
  \<^item> Python's numbers are modelled as exact reals: the rounding of IEEE-754 doubles
    is not part of this model.
\<close>

subsection \<open>Data\<close>

datatype py_error = KeyError | ZeroDivisionError

text \<open>A row of \<open>load_data\<close>: \<open>mother\<close>, \<open>father\<close> and \<open>trait\<close> may be \<open>None\<close>.\<close>

record person =
  name :: string
  mother :: "string option"
  father :: "string option"
  trait :: "bool option"

type_synonym population = "(string \<times> person) list"

text \<open>
  An entry of \<open>probabilities\<close>: the dict under \<open>"gene"\<close> and the dict under
  \<open>"trait"\<close> (the field \<open>trait_dist\<close>, since \<open>trait\<close> is the person's field).
\<close>

record dist =
  gene :: "nat \<rightharpoonup> real"
  trait_dist :: "bool \<rightharpoonup> real"

type_synonym table = "(string \<times> dist) list"

definition is_dict :: "('k \<times> 'v) list \<Rightarrow> bool" where
  "is_dict d = distinct (map fst d)"

text \<open>\<open>d[k]\<close>: the value, or KeyError.\<close>

definition getitem :: "('k \<rightharpoonup> 'v) \<Rightarrow> 'k \<Rightarrow> py_error + 'v" where
  "getitem d k = (case d k of None \<Rightarrow> Inl KeyError | Some v \<Rightarrow> Inr v)"

subsection \<open>The constants \<open>PROBS\<close>\<close>

definition PROBS_gene :: "nat \<rightharpoonup> real" where
  "PROBS_gene = [2 \<mapsto> 0.01, 1 \<mapsto> 0.03, 0 \<mapsto> 0.96]"

definition PROBS_trait :: "nat \<rightharpoonup> (bool \<rightharpoonup> real)" where
  "PROBS_trait =
     [2 \<mapsto> [True \<mapsto> 0.65, False \<mapsto> 0.35],
      1 \<mapsto> [True \<mapsto> 0.56, False \<mapsto> 0.44],
      0 \<mapsto> [True \<mapsto> 0.01, False \<mapsto> 0.99]]"

definition PROBS_mutation :: real where
  "PROBS_mutation = 0.01"

subsection \<open>\<open>joint_probability\<close>\<close>

text \<open>\<open>x in s\<close> for a name \<open>x\<close> that may be \<open>None\<close>: \<open>None\<close> is in no set of names.\<close>

fun py_in :: "string option \<Rightarrow> string set \<Rightarrow> bool" where
  "py_in None s = False"
| "py_in (Some x) s = (x \<in> s)"

text \<open>\<open>1 * (x in one_gene) + 2 * (x in two_genes)\<close>\<close>

definition n_genes_of :: "string option \<Rightarrow> string set \<Rightarrow> string set \<Rightarrow> nat" where
  "n_genes_of x one_gene two_genes =
     1 * of_bool (py_in x one_gene) + 2 * of_bool (py_in x two_genes)"

text \<open>
  \<open>PROBS['mutation'] * (n == 0) + 0.5 * (n == 1) + (1 - PROBS['mutation']) * (n == 2)\<close>
\<close>

definition effect :: "nat \<Rightarrow> real" where
  "effect n =
     PROBS_mutation * of_bool (n = 0) + 0.5 * of_bool (n = 1)
       + (1 - PROBS_mutation) * of_bool (n = 2)"

text \<open>The first loop: the names are split into \<open>parents\<close> and \<open>children\<close>.\<close>

fun split_people :: "population \<Rightarrow> string list \<Rightarrow> py_error + (string list \<times> string list)" where
  "split_people people [] = Inr ([], [])"
| "split_people people (human # rest) =
     (case getitem (map_of people) human of
        Inl e \<Rightarrow> Inl e
      | Inr h \<Rightarrow>
          (case split_people people rest of
             Inl e \<Rightarrow> Inl e
           | Inr (parents, children) \<Rightarrow>
               if mother h = None then Inr (human # parents, children)
               else Inr (parents, human # children)))"

text \<open>The loop over \<open>parents\<close>, with \<open>parents_joint\<close> as the accumulator.\<close>

fun parents_loop ::
  "string set \<Rightarrow> string set \<Rightarrow> string set \<Rightarrow> string list \<Rightarrow> real \<Rightarrow> py_error + real" where
  "parents_loop one_gene two_genes have_trait [] parents_joint = Inr parents_joint"
| "parents_loop one_gene two_genes have_trait (parent # rest) parents_joint =
     (let n_genes = n_genes_of (Some parent) one_gene two_genes;
          tr = (parent \<in> have_trait)
      in case getitem PROBS_gene n_genes of
           Inl e \<Rightarrow> Inl e
         | Inr pg \<Rightarrow>
             (case getitem PROBS_trait n_genes of
                Inl e \<Rightarrow> Inl e
              | Inr given \<Rightarrow>
                  (case getitem given tr of
                     Inl e \<Rightarrow> Inl e
                   | Inr pt \<Rightarrow>
                       parents_loop one_gene two_genes have_trait rest
                         (parents_joint * (pg * pt)))))"

text \<open>The loop over \<open>children\<close>, with \<open>children_joint\<close> as the accumulator.\<close>

fun children_loop ::
  "population \<Rightarrow> string set \<Rightarrow> string set \<Rightarrow> string set \<Rightarrow> string list \<Rightarrow> real
     \<Rightarrow> py_error + real" where
  "children_loop people one_gene two_genes have_trait [] children_joint = Inr children_joint"
| "children_loop people one_gene two_genes have_trait (child # rest) children_joint =
     (case getitem (map_of people) child of
        Inl e \<Rightarrow> Inl e
      | Inr c \<Rightarrow>
          (let n_genes = n_genes_of (Some child) one_gene two_genes;
               n_genes_mother = n_genes_of (mother c) one_gene two_genes;
               n_genes_father = n_genes_of (father c) one_gene two_genes;
               tr = (child \<in> have_trait);
               mother_effect = effect n_genes_mother;
               father_effect = effect n_genes_father;
               joint =
                 (if n_genes = 0 then
                    children_joint * ((1 - mother_effect) * (1 - father_effect))
                  else if n_genes = 1 then
                    children_joint
                      * ((1 - mother_effect) * father_effect + mother_effect * (1 - father_effect))
                  else children_joint * (mother_effect * father_effect))
           in case getitem PROBS_trait n_genes of
                Inl e \<Rightarrow> Inl e
              | Inr given \<Rightarrow>
                  (case getitem given tr of
                     Inl e \<Rightarrow> Inl e
                   | Inr pt \<Rightarrow>
                       children_loop people one_gene two_genes have_trait rest (joint * pt))))"

definition joint_probability ::
  "population \<Rightarrow> string set \<Rightarrow> string set \<Rightarrow> string set \<Rightarrow> py_error + real" where
  "joint_probability people one_gene two_genes have_trait =
     (case split_people people (map fst people) of
        Inl e \<Rightarrow> Inl e
      | Inr (parents, children) \<Rightarrow>
          (case parents_loop one_gene two_genes have_trait parents 1 of
             Inl e \<Rightarrow> Inl e
           | Inr parents_joint \<Rightarrow>
               (case children_loop people one_gene two_genes have_trait children 1 of
                  Inl e \<Rightarrow> Inl e
                | Inr children_joint \<Rightarrow> Inr (parents_joint * children_joint))))"

subsection \<open>\<open>update\<close>\<close>

text \<open>
  \<open>for human in probabilities\<close>: the loop over the keys, each step reading and writing
  the entry of \<open>human\<close>.  A step that raises ends the call.
\<close>

fun update_loop ::
  "string set \<Rightarrow> string set \<Rightarrow> string set \<Rightarrow> real \<Rightarrow> string list \<Rightarrow> table
     \<Rightarrow> py_error + table" where
  "update_loop one_gene two_genes have_trait p [] probabilities = Inr probabilities"
| "update_loop one_gene two_genes have_trait p (human # rest) probabilities =
     (let n_genes = n_genes_of (Some human) one_gene two_genes;
          tr = (human \<in> have_trait)
      in case getitem (map_of probabilities) human of
           Inl e \<Rightarrow> Inl e
         | Inr d \<Rightarrow>
             (case getitem (gene d) n_genes of
                Inl e \<Rightarrow> Inl e
              | Inr g \<Rightarrow>
                  (case getitem (trait_dist d) tr of
                     Inl e \<Rightarrow> Inl e
                   | Inr t \<Rightarrow>
                       update_loop one_gene two_genes have_trait p rest
                         (AList.update human
                            (d\<lparr>gene := (gene d)(n_genes \<mapsto> g + p),
                               trait_dist := (trait_dist d)(tr \<mapsto> t + p)\<rparr>)
                            probabilities))))"

definition update ::
  "table \<Rightarrow> string set \<Rightarrow> string set \<Rightarrow> string set \<Rightarrow> real \<Rightarrow> py_error + table" where
  "update probabilities one_gene two_genes have_trait p =
     update_loop one_gene two_genes have_trait p (map fst probabilities) probabilities"

subsection \<open>\<open>normalize\<close>\<close>

text \<open>\<open>x / y\<close> on Python numbers raises when \<open>y\<close> is zero.\<close>

definition py_div :: "real \<Rightarrow> real \<Rightarrow> py_error + real" where
  "py_div x y = (if y = 0 then Inl ZeroDivisionError else Inr (x / y))"

text \<open>\<open>for i in range(3): sum_genes_probs += probabilities[human]['gene'][i]\<close>\<close>

fun sum_genes :: "(nat \<rightharpoonup> real) \<Rightarrow> nat list \<Rightarrow> real \<Rightarrow> py_error + real" where
  "sum_genes g [] sum_genes_probs = Inr sum_genes_probs"
| "sum_genes g (i # rest) sum_genes_probs =
     (case getitem g i of
        Inl e \<Rightarrow> Inl e
      | Inr v \<Rightarrow> sum_genes g rest (sum_genes_probs + v))"

text \<open>\<open>for i in range(3): probabilities[human]['gene'][i] /= sum_genes_probs\<close>\<close>

fun divide_genes :: "(nat \<rightharpoonup> real) \<Rightarrow> nat list \<Rightarrow> real \<Rightarrow> py_error + (nat \<rightharpoonup> real)" where
  "divide_genes g [] sum_genes_probs = Inr g"
| "divide_genes g (i # rest) sum_genes_probs =
     (case getitem g i of
        Inl e \<Rightarrow> Inl e
      | Inr v \<Rightarrow>
          (case py_div v sum_genes_probs of
             Inl e \<Rightarrow> Inl e
           | Inr q \<Rightarrow> divide_genes (g(i \<mapsto> q)) rest sum_genes_probs))"

text \<open>The two statements that divide the trait entries by \<open>sum_trait_probs\<close>.\<close>

definition divide_trait :: "(bool \<rightharpoonup> real) \<Rightarrow> bool \<Rightarrow> real \<Rightarrow> py_error + (bool \<rightharpoonup> real)" where
  "divide_trait t b sum_trait_probs =
     (case getitem t b of
        Inl e \<Rightarrow> Inl e
      | Inr v \<Rightarrow>
          (case py_div v sum_trait_probs of
             Inl e \<Rightarrow> Inl e
           | Inr q \<Rightarrow> Inr (t(b \<mapsto> q))))"

text \<open>The body of the loop of \<open>normalize\<close>, on the entry of one person.\<close>

definition normalize_entry :: "dist \<Rightarrow> py_error + dist" where
  "normalize_entry d =
     (case sum_genes (gene d) [0 ..< 3] 0 of
        Inl e \<Rightarrow> Inl e
      | Inr sum_genes_probs \<Rightarrow>
          (case divide_genes (gene d) [0 ..< 3] sum_genes_probs of
             Inl e \<Rightarrow> Inl e
           | Inr g \<Rightarrow>
               (case getitem (trait_dist d) True of
                  Inl e \<Rightarrow> Inl e
                | Inr t \<Rightarrow>
                    (case getitem (trait_dist d) False of
                       Inl e \<Rightarrow> Inl e
                     | Inr f \<Rightarrow>
                         (let sum_trait_probs = t + f
                          in case divide_trait (trait_dist d) True sum_trait_probs of
                               Inl e \<Rightarrow> Inl e
                             | Inr t1 \<Rightarrow>
                                 (case divide_trait t1 False sum_trait_probs of
                                    Inl e \<Rightarrow> Inl e
                                  | Inr t2 \<Rightarrow> Inr (d\<lparr>gene := g, trait_dist := t2\<rparr>)))))))"

fun normalize_loop :: "string list \<Rightarrow> table \<Rightarrow> py_error + table" where
  "normalize_loop [] probabilities = Inr probabilities"
| "normalize_loop (human # rest) probabilities =
     (case getitem (map_of probabilities) human of
        Inl e \<Rightarrow> Inl e
      | Inr d \<Rightarrow>
          (case normalize_entry d of
             Inl e \<Rightarrow> Inl e
           | Inr d' \<Rightarrow> normalize_loop rest (AList.update human d' probabilities)))"

definition normalize :: "table \<Rightarrow> py_error + table" where
  "normalize probabilities = normalize_loop (map fst probabilities) probabilities"

subsection \<open>\<open>powerset\<close>\<close>

text \<open>
  \<open>itertools.combinations(s, r)\<close>: the subsequences of \<open>s\<close> of length \<open>r\<close>, in the
  lexicographic order of their positions.
\<close>

fun combinations :: "'a list \<Rightarrow> nat \<Rightarrow> 'a list list" where
  "combinations xs 0 = [[]]"
| "combinations [] (Suc r) = []"
| "combinations (x # xs) (Suc r) =
     map ((#) x) (combinations xs r) @ combinations xs (Suc r)"

text \<open>
  \<open>list_of\<close> is \<open>list(s)\<close>, the order in which the set is iterated; \<open>lists_sets\<close> says
  what every such order satisfies on the subsets of \<open>names\<close>.
\<close>

definition lists_sets :: "('a set \<Rightarrow> 'a list) \<Rightarrow> 'a set \<Rightarrow> bool" where
  "lists_sets list_of names =
     (\<forall>s. s \<subseteq> names \<longrightarrow> set (list_of s) = s \<and> distinct (list_of s))"

definition powerset :: "('a set \<Rightarrow> 'a list) \<Rightarrow> 'a set \<Rightarrow> 'a set list" where
  "powerset list_of s =
     (let l = list_of s
      in map set (concat (map (combinations l) [0 ..< length l + 1])))"

subsection \<open>\<open>main\<close>\<close>

text \<open>The table \<open>main\<close> starts from: every entry zero.\<close>

definition zero_dist :: dist where
  "zero_dist = \<lparr>gene = [2 \<mapsto> 0, 1 \<mapsto> 0, 0 \<mapsto> 0], trait_dist = [True \<mapsto> 0, False \<mapsto> 0]\<rparr>"

definition init_probabilities :: "population \<Rightarrow> table" where
  "init_probabilities people = map (\<lambda>person. (person, zero_dist)) (map fst people)"

text \<open>
  \<open>fails_evidence\<close>; \<open>person\<close> ranges over \<open>names\<close>, the keys of \<open>people\<close>, so
  \<open>people[person]\<close> finds its key.
\<close>

definition fails_evidence :: "population \<Rightarrow> string set \<Rightarrow> string set \<Rightarrow> bool" where
  "fails_evidence people names have_trait =
     (\<exists>person\<in>names.
        case map_of people person of
          None \<Rightarrow> False
        | Some h \<Rightarrow> trait h \<noteq> None \<and> trait h \<noteq> Some (person \<in> have_trait))"

text \<open>
  The three nested loops.  Their body is a parameter, a function of the hypothesis and
  of the state the loops carry; \<open>main\<close> runs them with \<open>main_body\<close>.
\<close>

fun loop_two_genes ::
  "(string set \<Rightarrow> string set \<Rightarrow> string set \<Rightarrow> 's \<Rightarrow> py_error + 's) \<Rightarrow> string set \<Rightarrow> string set
     \<Rightarrow> string set list \<Rightarrow> 's \<Rightarrow> py_error + 's" where
  "loop_two_genes body have_trait one_gene [] st = Inr st"
| "loop_two_genes body have_trait one_gene (two_genes # rest) st =
     (case body one_gene two_genes have_trait st of
        Inl e \<Rightarrow> Inl e
      | Inr st' \<Rightarrow> loop_two_genes body have_trait one_gene rest st')"

fun loop_one_gene ::
  "(string set \<Rightarrow> string list) \<Rightarrow> string set
     \<Rightarrow> (string set \<Rightarrow> string set \<Rightarrow> string set \<Rightarrow> 's \<Rightarrow> py_error + 's) \<Rightarrow> string set
     \<Rightarrow> string set list \<Rightarrow> 's \<Rightarrow> py_error + 's" where
  "loop_one_gene list_of names body have_trait [] st = Inr st"
| "loop_one_gene list_of names body have_trait (one_gene # rest) st =
     (case loop_two_genes body have_trait one_gene (powerset list_of (names - one_gene)) st of
        Inl e \<Rightarrow> Inl e
      | Inr st' \<Rightarrow> loop_one_gene list_of names body have_trait rest st')"

fun loop_have_trait ::
  "(string set \<Rightarrow> string list) \<Rightarrow> population \<Rightarrow> string set
     \<Rightarrow> (string set \<Rightarrow> string set \<Rightarrow> string set \<Rightarrow> 's \<Rightarrow> py_error + 's)
     \<Rightarrow> string set list \<Rightarrow> 's \<Rightarrow> py_error + 's" where
  "loop_have_trait list_of people names body [] st = Inr st"
| "loop_have_trait list_of people names body (have_trait # rest) st =
     (if fails_evidence people names have_trait then
        loop_have_trait list_of people names body rest st
      else
        (case loop_one_gene list_of names body have_trait (powerset list_of names) st of
           Inl e \<Rightarrow> Inl e
         | Inr st' \<Rightarrow> loop_have_trait list_of people names body rest st'))"

definition enumeration ::
  "(string set \<Rightarrow> string list) \<Rightarrow> population
     \<Rightarrow> (string set \<Rightarrow> string set \<Rightarrow> string set \<Rightarrow> 's \<Rightarrow> py_error + 's) \<Rightarrow> 's \<Rightarrow> py_error + 's" where
  "enumeration list_of people body st =
     (let names = set (map fst people)
      in loop_have_trait list_of people names body (powerset list_of names) st)"

text \<open>
  \<open>p = joint_probability(people, one_gene, two_genes, have_trait)\<close> and
  \<open>update(probabilities, one_gene, two_genes, have_trait, p)\<close>
\<close>

definition main_body ::
  "population \<Rightarrow> string set \<Rightarrow> string set \<Rightarrow> string set \<Rightarrow> table \<Rightarrow> py_error + table" where
  "main_body people one_gene two_genes have_trait probabilities =
     (case joint_probability people one_gene two_genes have_trait of
        Inl e \<Rightarrow> Inl e
      | Inr p \<Rightarrow> update probabilities one_gene two_genes have_trait p)"

text \<open>\<open>main\<close>, from the loaded \<open>people\<close> to the table it prints.\<close>

definition main :: "(string set \<Rightarrow> string list) \<Rightarrow> population \<Rightarrow> py_error + table" where
  "main list_of people =
     (case enumeration list_of people (main_body people) (init_probabilities people) of
        Inl e \<Rightarrow> Inl e
      | Inr probabilities \<Rightarrow> normalize probabilities)"

text \<open>
  The body of \<open>main\<close> with a record kept beside the table: the hypothesis is appended to
  the record once \<open>joint_probability\<close> and \<open>update\<close> have both returned.
\<close>

definition logging_body ::
  "population \<Rightarrow> string set \<Rightarrow> string set \<Rightarrow> string set
     \<Rightarrow> table \<times> (string set \<times> string set \<times> string set) list
     \<Rightarrow> py_error + table \<times> (string set \<times> string set \<times> string set) list" where
  "logging_body people one_gene two_genes have_trait st =
     (case main_body people one_gene two_genes have_trait (fst st) of
        Inl e \<Rightarrow> Inl e
      | Inr probabilities \<Rightarrow> Inr (probabilities, snd st @ [(one_gene, two_genes, have_trait)]))"

subsection \<open>Hypotheses, and the joint probability in the specification's words\<close>

text \<open>
  The gene count a hypothesis gives a person: 2 in \<open>two_genes\<close>, 1 in \<open>one_gene\<close>,
  0 otherwise.
\<close>

definition gene_count :: "string set \<Rightarrow> string set \<Rightarrow> string \<Rightarrow> nat" where
  "gene_count one_gene two_genes x =
     (if x \<in> two_genes then 2 else if x \<in> one_gene then 1 else 0)"

text \<open>
  The tables of \<open>PROBS\<close> as functions of a gene count 0, 1 or 2.
\<close>

definition gene_prior :: "nat \<Rightarrow> real" where
  "gene_prior n = (if n = 0 then 0.96 else if n = 1 then 0.03 else 0.01)"

definition trait_given_gene :: "nat \<Rightarrow> bool \<Rightarrow> real" where
  "trait_given_gene n b =
     (if n = 0 then (if b then 0.01 else 0.99)
      else if n = 1 then (if b then 0.56 else 0.44)
      else (if b then 0.65 else 0.35))"

text \<open>
  The probability that a parent with \<open>n\<close> copies passes the gene on, and the
  probability that a child has \<open>n\<close> copies when its mother passes one with
  probability \<open>m\<close> and its father with probability \<open>f\<close>.
\<close>

definition transmission :: "nat \<Rightarrow> real" where
  "transmission n =
     (if n = 0 then PROBS_mutation else if n = 1 then 0.5 else 1 - PROBS_mutation)"

definition child_factor :: "real \<Rightarrow> real \<Rightarrow> nat \<Rightarrow> real" where
  "child_factor m f n =
     (if n = 0 then (1 - m) * (1 - f)
      else if n = 1 then (1 - m) * f + m * (1 - f)
      else m * f)"

text \<open>
  The population as the specification has it: a founder has no parent, and every person
  has both parents or none.
\<close>

definition founder :: "person \<Rightarrow> bool" where
  "founder h = (mother h = None \<and> father h = None)"

definition family_ok :: "population \<Rightarrow> bool" where
  "family_ok people = (\<forall>(k, h)\<in>set people. (mother h = None) = (father h = None))"

text \<open>
  The joint probability in the specification's words: the product over the founders of
  prior times trait factor, times the product over the others of the factor from the
  parents' transmission probabilities times trait factor.
\<close>

definition founder_factor :: "string set \<Rightarrow> string set \<Rightarrow> string set \<Rightarrow> string \<Rightarrow> real" where
  "founder_factor one_gene two_genes have_trait k =
     (let n = gene_count one_gene two_genes k
      in gene_prior n * trait_given_gene n (k \<in> have_trait))"

definition non_founder_factor ::
  "string set \<Rightarrow> string set \<Rightarrow> string set \<Rightarrow> string \<Rightarrow> person \<Rightarrow> real" where
  "non_founder_factor one_gene two_genes have_trait k h =
     (let n = gene_count one_gene two_genes k;
          m = transmission (gene_count one_gene two_genes (the (mother h)));
          f = transmission (gene_count one_gene two_genes (the (father h)))
      in child_factor m f n * trait_given_gene n (k \<in> have_trait))"

definition spec_joint_probability ::
  "population \<Rightarrow> string set \<Rightarrow> string set \<Rightarrow> string set \<Rightarrow> real" where
  "spec_joint_probability people one_gene two_genes have_trait =
     (\<Prod>k\<in>{k \<in> set (map fst people). founder (the (map_of people k))}.
        founder_factor one_gene two_genes have_trait k)
     * (\<Prod>k\<in>{k \<in> set (map fst people). \<not> founder (the (map_of people k))}.
        non_founder_factor one_gene two_genes have_trait k (the (map_of people k)))"

text \<open>
  Two populations with the same persons in the same order, up to the field \<open>trait\<close>.
\<close>

definition same_family :: "population \<Rightarrow> population \<Rightarrow> bool" where
  "same_family people people' =
     (map (\<lambda>(k, h). (k, name h, mother h, father h)) people
        = map (\<lambda>(k, h). (k, name h, mother h, father h)) people')"

text \<open>
  A population of exactly three persons: the founders \<open>m\<close> and \<open>f\<close>, and the child
  \<open>c\<close> whose mother is \<open>m\<close> and whose father is \<open>f\<close>.
\<close>

definition two_generations :: "population \<Rightarrow> string \<Rightarrow> string \<Rightarrow> string \<Rightarrow> bool" where
  "two_generations people m f c =
     (is_dict people \<and> set (map fst people) = {m, f, c} \<and> distinct [m, f, c]
      \<and> (case map_of people m of None \<Rightarrow> False | Some h \<Rightarrow> mother h = None \<and> father h = None)
      \<and> (case map_of people f of None \<Rightarrow> False | Some h \<Rightarrow> mother h = None \<and> father h = None)
      \<and> (case map_of people c of None \<Rightarrow> False | Some h \<Rightarrow> mother h = Some m \<and> father h = Some f))"

text \<open>
  A hypothesis of the specification: disjoint sets \<open>one_gene\<close> and \<open>two_genes\<close> of
  persons and a set \<open>have_trait\<close> of persons that agrees with every known observation.
\<close>

definition admissible :: "population \<Rightarrow> string set \<Rightarrow> string set \<Rightarrow> string set \<Rightarrow> bool" where
  "admissible people one_gene two_genes have_trait =
     (one_gene \<subseteq> set (map fst people) \<and> two_genes \<subseteq> set (map fst people)
      \<and> one_gene \<inter> two_genes = {} \<and> have_trait \<subseteq> set (map fst people)
      \<and> (\<forall>(p, h)\<in>set people. trait h = None \<or> trait h = Some (p \<in> have_trait)))"

text \<open>
  The observed trait of a person, by name.
\<close>

definition observed :: "population \<Rightarrow> string \<Rightarrow> bool option" where
  "observed people p = (case map_of people p of None \<Rightarrow> None | Some h \<Rightarrow> trait h)"

subsection \<open>The loops of \<open>joint_probability\<close>, read off the code\<close>

text \<open>
  The test of the first loop, on a key of \<open>people\<close>, and the factor the loop over
  \<open>children\<close> multiplies in for a child (\<open>founder_factor\<close> is the factor of the loop
  over \<open>parents\<close>).
\<close>

definition no_mother :: "population \<Rightarrow> string \<Rightarrow> bool" where
  "no_mother people k = (case map_of people k of None \<Rightarrow> False | Some h \<Rightarrow> mother h = None)"

definition child_term ::
  "population \<Rightarrow> string set \<Rightarrow> string set \<Rightarrow> string set \<Rightarrow> string \<Rightarrow> real" where
  "child_term people one_gene two_genes have_trait k =
     (case map_of people k of
        None \<Rightarrow> 1
      | Some h \<Rightarrow>
          child_factor (effect (n_genes_of (mother h) one_gene two_genes))
              (effect (n_genes_of (father h) one_gene two_genes))
              (gene_count one_gene two_genes k)
            * trait_given_gene (gene_count one_gene two_genes k) (k \<in> have_trait))"

subsection \<open>Tables of probabilities\<close>

text \<open>
  The shape \<open>main\<close> gives every entry of \<open>probabilities\<close>: gene buckets 0, 1, 2 and
  trait buckets True, False.  No function adds or deletes a bucket.
\<close>

definition table_shape :: "table \<Rightarrow> bool" where
  "table_shape probabilities =
     (\<forall>(k, d)\<in>set probabilities. dom (gene d) = {0, 1, 2} \<and> dom (trait_dist d) = UNIV)"

text \<open>
  The entry of person \<open>k\<close> after one call of \<open>update\<close>.
\<close>

definition add_p :: "string set \<Rightarrow> string set \<Rightarrow> string set \<Rightarrow> real \<Rightarrow> string \<Rightarrow> dist \<Rightarrow> dist" where
  "add_p one_gene two_genes have_trait p k d =
     d\<lparr>gene := (gene d)(gene_count one_gene two_genes k
                    \<mapsto> the (gene d (gene_count one_gene two_genes k)) + p),
       trait_dist := (trait_dist d)((k \<in> have_trait) \<mapsto> the (trait_dist d (k \<in> have_trait)) + p)\<rparr>"

text \<open>
  The two sums \<open>normalize\<close> computes for an entry, and the entry with every bucket
  divided by the sum of its distribution.
\<close>

definition gene_sum :: "dist \<Rightarrow> real" where
  "gene_sum d = 0 + the (gene d 0) + the (gene d 1) + the (gene d 2)"

definition trait_sum :: "dist \<Rightarrow> real" where
  "trait_sum d = the (trait_dist d True) + the (trait_dist d False)"

definition normalized :: "dist \<Rightarrow> dist" where
  "normalized d =
     d\<lparr>gene := (gene d)(0 \<mapsto> the (gene d 0) / gene_sum d,
                        1 \<mapsto> the (gene d 1) / gene_sum d,
                        2 \<mapsto> the (gene d 2) / gene_sum d),
       trait_dist := (trait_dist d)(True \<mapsto> the (trait_dist d True) / trait_sum d,
                                    False \<mapsto> the (trait_dist d False) / trait_sum d)\<rparr>"

text \<open>
  One of the two sums of the entry is zero; every entry has gene sum and trait sum
  \<open>s\<close>.
\<close>

definition zero_sum :: "dist \<Rightarrow> bool" where
  "zero_sum d = (gene_sum d = 0 \<or> trait_sum d = 0)"

definition all_sums :: "table \<Rightarrow> real \<Rightarrow> bool" where
  "all_sums probabilities s = (\<forall>(k, d)\<in>set probabilities. gene_sum d = s \<and> trait_sum d = s)"

subsection \<open>The hypotheses of the three loops, as a list\<close>

text \<open>
  A body run at each hypothesis of a list, in order, stopping at the first error.
\<close>

fun run_body ::
  "(string set \<Rightarrow> string set \<Rightarrow> string set \<Rightarrow> 's \<Rightarrow> py_error + 's)
     \<Rightarrow> (string set \<times> string set \<times> string set) list \<Rightarrow> 's \<Rightarrow> py_error + 's" where
  "run_body body [] st = Inr st"
| "run_body body ((one_gene, two_genes, have_trait) # rest) st =
     (case body one_gene two_genes have_trait st of
        Inl e \<Rightarrow> Inl e
      | Inr st' \<Rightarrow> run_body body rest st')"

text \<open>
  The hypotheses at which the loops run their body, in the order of the loops:
  \<open>gene_pairs\<close> for the two inner loops under one \<open>have_trait\<close>, \<open>hypotheses_on\<close> for
  the three loops over a set \<open>names\<close>, \<open>hypotheses\<close> for the names of \<open>people\<close>.
\<close>

definition gene_pairs ::
  "(string set \<Rightarrow> string list) \<Rightarrow> string set \<Rightarrow> string set
     \<Rightarrow> (string set \<times> string set \<times> string set) list" where
  "gene_pairs list_of names have_trait =
     concat (map (\<lambda>one_gene.
         map (\<lambda>two_genes. (one_gene, two_genes, have_trait))
           (powerset list_of (names - one_gene)))
       (powerset list_of names))"

definition hypotheses_on ::
  "(string set \<Rightarrow> string list) \<Rightarrow> population \<Rightarrow> string set
     \<Rightarrow> (string set \<times> string set \<times> string set) list" where
  "hypotheses_on list_of people names =
     concat (map (gene_pairs list_of names)
       (filter (\<lambda>have_trait. \<not> fails_evidence people names have_trait)
          (powerset list_of names)))"

definition hypotheses ::
  "(string set \<Rightarrow> string list) \<Rightarrow> population
     \<Rightarrow> (string set \<times> string set \<times> string set) list" where
  "hypotheses list_of people = hypotheses_on list_of people (set (map fst people))"

subsection \<open>Examples\<close>

text \<open>
  A family of three: a child with unknown trait and its two parents, one with the trait
  and one without; and the same family with every observed trait unknown.
\<close>

definition example_family :: population where
  "example_family =
     [(''Harry'', \<lparr>name = ''Harry'', mother = Some ''Lily'', father = Some ''James'', trait = None\<rparr>),
      (''James'', \<lparr>name = ''James'', mother = None, father = None, trait = Some True\<rparr>),
      (''Lily'', \<lparr>name = ''Lily'', mother = None, father = None, trait = Some False\<rparr>)]"

definition unobserved_family :: population where
  "unobserved_family =
     [(''Harry'', \<lparr>name = ''Harry'', mother = Some ''Lily'', father = Some ''James'', trait = None\<rparr>),
      (''James'', \<lparr>name = ''James'', mother = None, father = None, trait = None\<rparr>),
      (''Lily'', \<lparr>name = ''Lily'', mother = None, father = None, trait = None\<rparr>)]"

text \<open>
  An order of iteration for the sets of names of \<open>example_family\<close>.
\<close>

definition example_list_of :: "string set \<Rightarrow> string list" where
  "example_list_of s = filter (\<lambda>x. x \<in> s) [''Harry'', ''James'', ''Lily'']"

text \<open>
  A table of two entries with nonzero sums.
\<close>

definition example_james :: dist where
  "example_james = \<lparr>gene = [2 \<mapsto> 1, 1 \<mapsto> 4, 0 \<mapsto> 1], trait_dist = [True \<mapsto> 1, False \<mapsto> 3]\<rparr>"

definition example_lily :: dist where
  "example_lily = \<lparr>gene = [2 \<mapsto> 0, 1 \<mapsto> 0.5, 0 \<mapsto> 1.5], trait_dist = [True \<mapsto> 2, False \<mapsto> 0]\<rparr>"

definition example_table :: table where
  "example_table = [(''James'', example_james), (''Lily'', example_lily)]"

subsection \<open>Basic facts\<close>

lemma n_genes_of_le_3: "n_genes_of x one_gene two_genes \<le> 3"
  by (simp add: n_genes_of_def)

lemma n_genes_of_Some:
  "one_gene \<inter> two_genes = {} \<Longrightarrow>
     n_genes_of (Some x) one_gene two_genes = gene_count one_gene two_genes x"
  by (auto simp: n_genes_of_def gene_count_def)

lemma gene_count_le_2: "gene_count one_gene two_genes x \<le> 2"
  by (simp add: gene_count_def)

lemma n_genes_of_le_2:
  "one_gene \<inter> two_genes = {} \<Longrightarrow> n_genes_of x one_gene two_genes \<le> 2"
  by (cases x) (auto simp: n_genes_of_def)

lemma n_genes_of_eq_3:
  "n_genes_of (Some x) one_gene two_genes = 3 \<longleftrightarrow> x \<in> one_gene \<and> x \<in> two_genes"
  by (auto simp: n_genes_of_def)

lemma le_2_cases: "n \<le> 2 \<Longrightarrow> n = 0 \<or> n = 1 \<or> n = (2::nat)"
  by arith

lemma PROBS_gene_lookup: "n \<le> 2 \<Longrightarrow> getitem PROBS_gene n = Inr (gene_prior n)"
  by (auto dest!: le_2_cases simp: getitem_def PROBS_gene_def gene_prior_def)

lemma PROBS_trait_lookup:
  "n \<le> 2 \<Longrightarrow> \<exists>given. getitem PROBS_trait n = Inr given
      \<and> getitem given b = Inr (trait_given_gene n b)"
  by (auto dest!: le_2_cases simp: getitem_def PROBS_trait_def trait_given_gene_def)

lemma effect_transmission: "n \<le> 2 \<Longrightarrow> effect n = transmission n"
  by (auto dest!: le_2_cases simp: effect_def transmission_def)

lemma getitem_key: "k \<in> set (map fst d) \<Longrightarrow> \<exists>v. getitem (map_of d) k = Inr v \<and> map_of d k = Some v"
proof -
  assume "k \<in> set (map fst d)"
  then have "map_of d k \<noteq> None" by (simp add: map_of_eq_None_iff)
  then show ?thesis by (auto simp: getitem_def)
qed

lemma split_people_eq:
  "set ks \<subseteq> set (map fst people) \<Longrightarrow>
     split_people people ks
       = Inr (filter (no_mother people) ks, filter (\<lambda>k. \<not> no_mother people k) ks)"
proof (induction ks)
  case Nil
  show ?case by simp
next
  case (Cons k ks)
  then have "k \<in> set (map fst people)" by simp
  from getitem_key [OF this] obtain h
    where h: "getitem (map_of people) k = Inr h" "map_of people k = Some h" by blast
  from Cons have "split_people people ks
       = Inr (filter (no_mother people) ks, filter (\<lambda>k. \<not> no_mother people k) ks)" by simp
  moreover have "no_mother people k = (mother h = None)"
    using h by (simp add: no_mother_def)
  ultimately show ?case using h by simp
qed

lemma parents_loop_eq:
  assumes "one_gene \<inter> two_genes = {}"
  shows "parents_loop one_gene two_genes have_trait ps acc
       = Inr (acc * prod_list (map (founder_factor one_gene two_genes have_trait) ps))"
proof (induction ps arbitrary: acc)
  case Nil
  show ?case by simp
next
  case (Cons k ps)
  let ?n = "gene_count one_gene two_genes k"
  have n: "n_genes_of (Some k) one_gene two_genes = ?n"
    by (rule n_genes_of_Some [OF assms])
  obtain given where g: "getitem PROBS_trait ?n = Inr given"
      "getitem given (k \<in> have_trait) = Inr (trait_given_gene ?n (k \<in> have_trait))"
    using PROBS_trait_lookup [OF gene_count_le_2] by blast
  show ?case
    by (simp add: n g PROBS_gene_lookup [OF gene_count_le_2] Cons founder_factor_def mult.assoc
          Let_def)
qed

lemma children_loop_eq:
  assumes "one_gene \<inter> two_genes = {}" and "set cs \<subseteq> set (map fst people)"
  shows "children_loop people one_gene two_genes have_trait cs acc
       = Inr (acc * prod_list (map (child_term people one_gene two_genes have_trait) cs))"
  using assms(2)
proof (induction cs arbitrary: acc)
  case Nil
  show ?case by simp
next
  case (Cons k cs)
  let ?n = "gene_count one_gene two_genes k"
  have n: "n_genes_of (Some k) one_gene two_genes = ?n"
    by (rule n_genes_of_Some [OF assms(1)])
  from Cons.prems have "k \<in> set (map fst people)" by simp
  from getitem_key [OF this] obtain h
    where h: "getitem (map_of people) k = Inr h" "map_of people k = Some h" by blast
  obtain given where g: "getitem PROBS_trait ?n = Inr given"
      "getitem given (k \<in> have_trait) = Inr (trait_given_gene ?n (k \<in> have_trait))"
    using PROBS_trait_lookup [OF gene_count_le_2] by blast
  from Cons.prems have sub: "set cs \<subseteq> set (map fst people)" by simp
  show ?case
    by (simp add: n g h Cons.IH [OF sub] child_term_def child_factor_def Let_def mult.assoc)
qed

lemma joint_probability_eq:
  assumes "one_gene \<inter> two_genes = {}"
  shows "joint_probability people one_gene two_genes have_trait
       = Inr (prod_list (map (founder_factor one_gene two_genes have_trait)
                  (filter (no_mother people) (map fst people)))
              * prod_list (map (child_term people one_gene two_genes have_trait)
                  (filter (\<lambda>k. \<not> no_mother people k) (map fst people))))"
proof -
  have sub: "set (filter (\<lambda>k. \<not> no_mother people k) (map fst people)) \<subseteq> set (map fst people)"
    by auto
  show ?thesis
    unfolding joint_probability_def
    by (simp add: split_people_eq parents_loop_eq [OF assms]
          children_loop_eq [OF assms sub])
qed


subsection \<open>\<open>powerset\<close> lists every subset once\<close>

lemma filter_length_0_subseqs: "filter (\<lambda>ys. length ys = 0) (subseqs xs) = [[]]"
  by (induction xs) (simp_all add: Let_def filter_map comp_def)

lemma combinations_eq_filter:
  "combinations xs r = filter (\<lambda>ys. length ys = r) (subseqs xs)"
proof (induction xs r rule: combinations.induct)
  case (1 xs)
  show ?case using filter_length_0_subseqs [of xs] by simp
next
  case (2 r)
  show ?case by simp
next
  case (3 x xs r)
  then show ?case by (simp add: Let_def filter_map comp_def)
qed

lemma length_subseqs_le: "ys \<in> set (subseqs xs) \<Longrightarrow> length ys \<le> length xs"
  by (induction xs arbitrary: ys) (auto simp: Let_def intro: le_SucI)

lemma mset_concat_filter_upt:
  "mset (concat (map (\<lambda>r. filter (\<lambda>y. f y = r) zs) [0 ..< n]))
     = mset (filter (\<lambda>y. f y < n) zs)"
proof (induction n)
  case 0
  show ?case by simp
next
  case (Suc n)
  have "filter_mset (\<lambda>y. f y < n) (mset zs) + filter_mset (\<lambda>y. f y = n) (mset zs)
      = filter_mset (\<lambda>y. f y < Suc n) (mset zs)"
    by (rule multiset_eqI) auto
  with Suc show ?case by simp
qed

lemma mset_all_combinations:
  "mset (concat (map (combinations l) [0 ..< length l + 1])) = mset (subseqs l)"
proof -
  have "combinations l = (\<lambda>r. filter (\<lambda>ys. length ys = r) (subseqs l))"
    by (rule ext) (rule combinations_eq_filter)
  then have "mset (concat (map (combinations l) [0 ..< length l + 1]))
      = mset (filter (\<lambda>ys. length ys < length l + 1) (subseqs l))"
    by (simp only: mset_concat_filter_upt)
  also have "filter (\<lambda>ys. length ys < length l + 1) (subseqs l) = subseqs l"
    by (rule filter_True) (auto dest: length_subseqs_le)
  finally show ?thesis .
qed

lemma mset_powerset:
  "mset (powerset list_of s) = image_mset set (mset (subseqs (list_of s)))"
  by (simp only: powerset_def Let_def mset_map mset_all_combinations)

lemma set_powerset:
  assumes "set (list_of s) = s"
  shows "set (powerset list_of s) = Pow s"
proof -
  have "set (powerset list_of s) = set_mset (mset (powerset list_of s))" by simp
  also have "\<dots> = set ` set (subseqs (list_of s))" by (simp only: mset_powerset) simp
  also have "\<dots> = Pow s" by (simp add: subseqs_powset assms)
  finally show ?thesis .
qed

lemma distinct_powerset:
  assumes "distinct (list_of s)"
  shows "distinct (powerset list_of s)"
proof -
  have "mset (powerset list_of s) = mset (map set (subseqs (list_of s)))"
    by (simp add: mset_powerset)
  moreover have "distinct (map set (subseqs (list_of s)))"
    by (rule distinct_set_subseqs [OF assms])
  ultimately show ?thesis by (metis mset_eq_imp_distinct_iff)
qed

lemma length_powerset: "length (powerset list_of s) = 2 ^ length (list_of s)"
proof -
  have "length (powerset list_of s) = size (mset (powerset list_of s))" by simp
  also have "\<dots> = length (subseqs (list_of s))" by (simp only: mset_powerset) simp
  finally show ?thesis by (simp add: length_subseqs)
qed

lemma sum_subseqs_pow:
  "(\<Sum>ys\<leftarrow>subseqs xs. (2::nat) ^ (length xs - length ys)) = 3 ^ length xs"
proof (induction xs)
  case Nil
  show ?case by simp
next
  case (Cons x xs)
  have "(\<Sum>ys\<leftarrow>subseqs xs. (2::nat) ^ (Suc (length xs) - length ys))
      = (\<Sum>ys\<leftarrow>subseqs xs. 2 * 2 ^ (length xs - length ys))"
    by (rule arg_cong [where f = sum_list], rule map_cong [OF refl])
       (simp add: length_subseqs_le Suc_diff_le)
  also have "\<dots> = 2 * 3 ^ length xs"
    by (simp add: sum_list_const_mult Cons)
  finally show ?case by (simp add: Let_def comp_def Cons)
qed

subsection \<open>\<open>update\<close> as a map over the entries\<close>

lemma update_append_fresh:
  "k \<notin> fst ` set xs \<Longrightarrow> AList.update k v (xs @ (k, d) # ys) = xs @ (k, v) # ys"
  by (induction xs) auto

lemma map_of_append_fresh:
  "k \<notin> fst ` set xs \<Longrightarrow> map_of (xs @ (k, d) # ys) k = Some d"
  by (induction xs) auto

lemma getitem_dom: "k \<in> dom m \<Longrightarrow> getitem m k = Inr (the (m k))"
  by (auto simp: getitem_def)

lemma table_shape_Cons:
  "table_shape ((k, d) # ys) \<longleftrightarrow>
     dom (gene d) = {0, 1, 2} \<and> dom (trait_dist d) = UNIV \<and> table_shape ys"
  by (simp add: table_shape_def)

lemma gene_count_in_dom: "dom g = {0, 1, 2} \<Longrightarrow> gene_count one_gene two_genes k \<in> dom g"
  by (simp add: gene_count_def)

lemma update_loop_eq:
  assumes "one_gene \<inter> two_genes = {}"
  shows "distinct (map fst (xs @ ys)) \<Longrightarrow> table_shape ys \<Longrightarrow>
     update_loop one_gene two_genes have_trait p (map fst ys) (xs @ ys)
       = Inr (xs @ map (\<lambda>(k, d). (k, add_p one_gene two_genes have_trait p k d)) ys)"
proof (induction ys arbitrary: xs)
  case Nil
  show ?case by simp
next
  case (Cons a ys)
  obtain k d where a: "a = (k, d)" by (cases a)
  from Cons.prems(1) have fresh: "k \<notin> fst ` set xs" by (auto simp: a)
  from Cons.prems(2) have shape: "dom (gene d) = {0, 1, 2}" "dom (trait_dist d) = UNIV"
      "table_shape ys"
    by (simp_all add: a table_shape_Cons)
  have n: "n_genes_of (Some k) one_gene two_genes = gene_count one_gene two_genes k"
    by (rule n_genes_of_Some [OF assms])
  have g: "getitem (gene d) (gene_count one_gene two_genes k)
      = Inr (the (gene d (gene_count one_gene two_genes k)))"
    by (rule getitem_dom [OF gene_count_in_dom [OF shape(1)]])
  have t: "getitem (trait_dist d) (k \<in> have_trait) = Inr (the (trait_dist d (k \<in> have_trait)))"
    by (rule getitem_dom) (simp add: shape(2))
  have l: "getitem (map_of (xs @ (k, d) # ys)) k = Inr d"
    unfolding getitem_def by (simp only: map_of_append_fresh [OF fresh] option.case)
  from Cons.prems(1) have d': "distinct (map fst ((xs @ [(k, add_p one_gene two_genes have_trait p k d)]) @ ys))"
    by (simp add: a)
  have "update_loop one_gene two_genes have_trait p (map fst (a # ys)) (xs @ a # ys)
      = update_loop one_gene two_genes have_trait p (map fst ys)
          ((xs @ [(k, add_p one_gene two_genes have_trait p k d)]) @ ys)"
    by (simp add: a n g t l Let_def update_append_fresh [OF fresh] add_p_def
          del: map_of_append map_of.simps)
  also note Cons.IH [OF d' shape(3)]
  finally show ?case by (simp add: a)
qed

lemma update_eq:
  assumes "one_gene \<inter> two_genes = {}" and "is_dict probabilities" and "table_shape probabilities"
  shows "update probabilities one_gene two_genes have_trait p
       = Inr (map (\<lambda>(k, d). (k, add_p one_gene two_genes have_trait p k d)) probabilities)"
  using update_loop_eq [OF assms(1), of "[]" probabilities have_trait p] assms(2,3)
  by (simp add: update_def is_dict_def)


lemma map_of_map_entries:
  "map_of (map (\<lambda>(k, d). (k, f k d)) al) k = map_option (f k) (map_of al k)"
  by (induction al) auto

lemma map_fst_map_entries: "map fst (map (\<lambda>(k, d). (k, f k d)) al) = map fst al"
  by (induction al) auto

lemma table_shape_lookup:
  assumes "table_shape probabilities" and "map_of probabilities k = Some d"
  shows "dom (gene d) = {0, 1, 2} \<and> dom (trait_dist d) = UNIV"
proof -
  from assms(2) have "(k, d) \<in> set probabilities" by (rule map_of_SomeD)
  with assms(1) have "case (k, d) of (k, d) \<Rightarrow>
      dom (gene d) = {0, 1, 2} \<and> dom (trait_dist d) = UNIV"
    unfolding table_shape_def by (rule bspec)
  then show ?thesis by (simp only: prod.case)
qed

lemma dom_gene_zero_dist: "dom (gene zero_dist) = {0, 1, 2}"
  by (simp add: zero_dist_def)

lemma dom_trait_zero_dist: "dom (trait_dist zero_dist) = UNIV"
  by (simp add: zero_dist_def UNIV_bool)

lemma table_shape_init: "table_shape (init_probabilities people)"
  unfolding table_shape_def init_probabilities_def
  by (simp add: dom_gene_zero_dist dom_trait_zero_dist del: One_nat_def)

lemma is_dict_init: "is_dict people \<Longrightarrow> is_dict (init_probabilities people)"
  by (simp add: is_dict_def init_probabilities_def comp_def)

subsection \<open>The joint probability as a product\<close>

lemma family_ok_lookup:
  "family_ok people \<Longrightarrow> map_of people k = Some h \<Longrightarrow> (mother h = None) = (father h = None)"
  by (auto simp: family_ok_def dest!: map_of_SomeD)

lemma no_mother_founder:
  assumes "family_ok people" and "k \<in> set (map fst people)"
  shows "no_mother people k = founder (the (map_of people k))"
proof -
  from getitem_key [OF assms(2)] obtain h where h: "map_of people k = Some h" by blast
  from family_ok_lookup [OF assms(1) h] h show ?thesis
    by (auto simp: no_mother_def founder_def)
qed

lemma child_term_non_founder:
  assumes "family_ok people" and "one_gene \<inter> two_genes = {}"
    and "k \<in> set (map fst people)" and "\<not> founder (the (map_of people k))"
  shows "child_term people one_gene two_genes have_trait k
       = non_founder_factor one_gene two_genes have_trait k (the (map_of people k))"
proof -
  from getitem_key [OF assms(3)] obtain h where h: "map_of people k = Some h" by blast
  from family_ok_lookup [OF assms(1) h] assms(4) h
  obtain m f where mf: "mother h = Some m" "father h = Some f"
    by (auto simp: founder_def)
  show ?thesis
    by (simp add: child_term_def non_founder_factor_def h mf n_genes_of_Some [OF assms(2)]
          effect_transmission [OF gene_count_le_2] Let_def)
qed

text \<open>
  C1.  For a population in which every person has both parents or none, and a hypothesis
  whose \<open>one_gene\<close> and \<open>two_genes\<close> are disjoint, \<open>joint_probability\<close> returns the
  product over the founders of \<open>gene_prior n * trait_given_gene n trait\<close> and over the
  other persons of \<open>child_factor m f n * trait_given_gene n trait\<close>, where \<open>m\<close> and
  \<open>f\<close> are the parents' transmission probabilities (the mutation probability for 0
  copies, 0.5 for 1 copy, one minus the mutation probability for 2 copies).
\<close>

theorem joint_probability_is_product:
  assumes "is_dict people" and "family_ok people" and "one_gene \<inter> two_genes = {}"
  shows "joint_probability people one_gene two_genes have_trait
       = Inr (spec_joint_probability people one_gene two_genes have_trait)"
proof -
  let ?ks = "map fst people"
  have d: "distinct ?ks" using assms(1) by (simp add: is_dict_def)
  have fs: "filter (no_mother people) ?ks = filter (\<lambda>k. founder (the (map_of people k))) ?ks"
    by (rule filter_cong [OF refl]) (rule no_mother_founder [OF assms(2)])
  have cs: "filter (\<lambda>k. \<not> no_mother people k) ?ks
          = filter (\<lambda>k. \<not> founder (the (map_of people k))) ?ks"
    by (rule filter_cong [OF refl]) (simp add: no_mother_founder [OF assms(2)])
  have p1: "prod_list (map (founder_factor one_gene two_genes have_trait)
               (filter (\<lambda>k. founder (the (map_of people k))) ?ks))
          = (\<Prod>k\<in>{k \<in> set ?ks. founder (the (map_of people k))}.
               founder_factor one_gene two_genes have_trait k)"
  proof -
    have "(\<Prod>k\<in>set (filter (\<lambda>k. founder (the (map_of people k))) ?ks).
             founder_factor one_gene two_genes have_trait k)
        = prod_list (map (founder_factor one_gene two_genes have_trait)
             (filter (\<lambda>k. founder (the (map_of people k))) ?ks))"
      by (rule prod.distinct_set_conv_list) (rule distinct_filter [OF d])
    then show ?thesis by simp
  qed
  have p2: "prod_list (map (child_term people one_gene two_genes have_trait)
               (filter (\<lambda>k. \<not> founder (the (map_of people k))) ?ks))
          = (\<Prod>k\<in>{k \<in> set ?ks. \<not> founder (the (map_of people k))}.
               non_founder_factor one_gene two_genes have_trait k (the (map_of people k)))"
  proof -
    let ?cs = "filter (\<lambda>k. \<not> founder (the (map_of people k))) ?ks"
    have "(\<Prod>k\<in>set ?cs. child_term people one_gene two_genes have_trait k)
        = prod_list (map (child_term people one_gene two_genes have_trait) ?cs)"
      by (rule prod.distinct_set_conv_list) (rule distinct_filter [OF d])
    moreover have "(\<Prod>k\<in>set ?cs. child_term people one_gene two_genes have_trait k)
        = (\<Prod>k\<in>set ?cs.
             non_founder_factor one_gene two_genes have_trait k (the (map_of people k)))"
      by (rule prod.cong [OF refl]) (simp add: child_term_non_founder [OF assms(2,3)])
    ultimately show ?thesis by simp
  qed
  show ?thesis
    unfolding spec_joint_probability_def
    by (simp only: joint_probability_eq [OF assms(3)] fs cs p1 p2)
qed

lemma example_family_dict: "is_dict example_family"
  by (simp add: is_dict_def example_family_def)

lemma example_family_ok: "family_ok example_family"
  by (simp add: family_ok_def example_family_def)

lemma jp_example:
  "joint_probability example_family {''Harry''} {''James''} {''James''} = Inr 0.0026643247488"
  by (simp add: joint_probability_def example_family_def getitem_def n_genes_of_def
        effect_def PROBS_gene_def PROBS_trait_def PROBS_mutation_def)

theorem joint_probability_is_product_witness:
  "is_dict example_family \<and> family_ok example_family \<and> {''Harry''} \<inter> {''James''} = {}
   \<and> joint_probability example_family {''Harry''} {''James''} {''James''}
       = Inr (spec_joint_probability example_family {''Harry''} {''James''} {''James''})
   \<and> spec_joint_probability example_family {''Harry''} {''James''} {''James''} = 0.0026643247488"
proof -
  have d: "{''Harry''} \<inter> {''James''} = ({} :: string set)" by simp
  from joint_probability_is_product [OF example_family_dict example_family_ok d]
  have "joint_probability example_family {''Harry''} {''James''} {''James''}
       = Inr (spec_joint_probability example_family {''Harry''} {''James''} {''James''})" .
  with jp_example example_family_dict example_family_ok d show ?thesis by simp
qed

subsection \<open>The observations do not enter the joint probability\<close>

lemma same_family_keys: "same_family people people' \<Longrightarrow> map fst people = map fst people'"
proof -
  assume "same_family people people'"
  then have "map fst (map (\<lambda>(k, h). (k, name h, mother h, father h)) people)
     = map fst (map (\<lambda>(k, h). (k, name h, mother h, father h)) people')"
    unfolding same_family_def by simp
  then show ?thesis by (simp add: case_prod_unfold comp_def)
qed

lemma same_family_lookup:
  "same_family people people' \<Longrightarrow>
     rel_option (\<lambda>h h'. mother h = mother h' \<and> father h = father h')
       (map_of people k) (map_of people' k)"
  unfolding same_family_def
proof (induction people arbitrary: people')
  case Nil
  then show ?case by simp
next
  case (Cons a people)
  then obtain b rest where p': "people' = b # rest" by (cases people') auto
  with Cons show ?case by (auto simp: case_prod_unfold)
qed

lemma same_family_split:
  assumes "same_family people people'"
  shows "split_people people ks = split_people people' ks"
proof (induction ks)
  case Nil
  show ?case by simp
next
  case (Cons k ks)
  from same_family_lookup [OF assms, of k] Cons show ?case
    by (cases "map_of people k"; cases "map_of people' k")
       (auto simp: getitem_def split: sum.splits prod.splits)
qed

lemma same_family_children:
  assumes "same_family people people'"
  shows "children_loop people one_gene two_genes have_trait ks acc
       = children_loop people' one_gene two_genes have_trait ks acc"
proof (induction ks arbitrary: acc)
  case Nil
  show ?case by simp
next
  case (Cons k ks)
  from same_family_lookup [OF assms, of k] Cons show ?case
    by (cases "map_of people k"; cases "map_of people' k")
       (auto simp: getitem_def Let_def split: sum.splits)
qed

text \<open>
  C10.  Two populations that agree on every person's name, mother and father, and
  differ in the observed traits only, give the same \<open>joint_probability\<close> at every
  hypothesis: the observations are never read.
\<close>

theorem joint_probability_ignores_observations:
  assumes "same_family people people'"
  shows "joint_probability people one_gene two_genes have_trait
       = joint_probability people' one_gene two_genes have_trait"
  unfolding joint_probability_def
  by (simp add: same_family_keys [OF assms] same_family_split [OF assms]
        same_family_children [OF assms] split: sum.splits prod.splits)

theorem joint_probability_ignores_observations_witness:
  "same_family example_family (map (\<lambda>(k, h). (k, h\<lparr>trait := Some (k = ''Harry'')\<rparr>)) example_family)
   \<and> joint_probability example_family {''Harry''} {''James''} {''James''}
     = joint_probability (map (\<lambda>(k, h). (k, h\<lparr>trait := Some (k = ''Harry'')\<rparr>)) example_family)
         {''Harry''} {''James''} {''James''}"
proof -
  have s: "same_family example_family
      (map (\<lambda>(k, h). (k, h\<lparr>trait := Some (k = ''Harry'')\<rparr>)) example_family)"
    by (simp add: same_family_def example_family_def)
  from s joint_probability_ignores_observations [OF s] show ?thesis by simp
qed

subsection \<open>What \<open>update\<close> changes\<close>

text \<open>
  C8.  When \<open>one_gene\<close> and \<open>two_genes\<close> are disjoint, \<open>update\<close> returns the table
  with the same keys in which the entry of every person is the old entry with two buckets
  changed: the gene bucket of the person's gene count and the trait bucket of the person's
  membership in \<open>have_trait\<close>, each the old value plus \<open>p\<close>.
\<close>

theorem update_adds_p:
  assumes "one_gene \<inter> two_genes = {}" and "is_dict probabilities"
    and "table_shape probabilities"
  shows "\<exists>probs'. update probabilities one_gene two_genes have_trait p = Inr probs'
     \<and> map fst probs' = map fst probabilities
     \<and> (\<forall>k d. map_of probabilities k = Some d \<longrightarrow>
          (\<exists>g t. gene d (gene_count one_gene two_genes k) = Some g
             \<and> trait_dist d (k \<in> have_trait) = Some t
             \<and> map_of probs' k
                 = Some (d\<lparr>gene := (gene d)(gene_count one_gene two_genes k \<mapsto> g + p),
                          trait_dist := (trait_dist d)((k \<in> have_trait) \<mapsto> t + p)\<rparr>)))"
proof -
  let ?probs' = "map (\<lambda>(k, d). (k, add_p one_gene two_genes have_trait p k d)) probabilities"
  have "\<exists>g t. gene d (gene_count one_gene two_genes k) = Some g
             \<and> trait_dist d (k \<in> have_trait) = Some t
             \<and> map_of ?probs' k
                 = Some (d\<lparr>gene := (gene d)(gene_count one_gene two_genes k \<mapsto> g + p),
                          trait_dist := (trait_dist d)((k \<in> have_trait) \<mapsto> t + p)\<rparr>)"
    if l: "map_of probabilities k = Some d" for k d
  proof -
    from table_shape_lookup [OF assms(3) l]
    have "gene_count one_gene two_genes k \<in> dom (gene d)" "(k \<in> have_trait) \<in> dom (trait_dist d)"
      by (simp_all add: gene_count_def)
    then obtain g t where gt: "gene d (gene_count one_gene two_genes k) = Some g"
        "trait_dist d (k \<in> have_trait) = Some t"
      by blast
    then show ?thesis by (simp add: map_of_map_entries l add_p_def)
  qed
  then have 3: "\<forall>k d. map_of probabilities k = Some d \<longrightarrow>
          (\<exists>g t. gene d (gene_count one_gene two_genes k) = Some g
             \<and> trait_dist d (k \<in> have_trait) = Some t
             \<and> map_of ?probs' k
                 = Some (d\<lparr>gene := (gene d)(gene_count one_gene two_genes k \<mapsto> g + p),
                          trait_dist := (trait_dist d)((k \<in> have_trait) \<mapsto> t + p)\<rparr>))"
    by (intro allI impI)
  have 1: "update probabilities one_gene two_genes have_trait p = Inr ?probs'"
    by (rule update_eq [OF assms])
  have 2: "map fst ?probs' = map fst probabilities"
    by (rule map_fst_map_entries)
  show ?thesis
    by (rule exI [of _ ?probs']) (rule conjI [OF 1 conjI [OF 2 3]])
qed

theorem update_adds_p_witness:
  "{''Harry''} \<inter> {''James''} = ({} :: string set)
   \<and> is_dict (init_probabilities example_family)
   \<and> table_shape (init_probabilities example_family)
   \<and> (\<exists>probs'. update (init_probabilities example_family) {''Harry''} {''James''} {''James''} 0.5
          = Inr probs'
     \<and> map fst probs' = map fst (init_probabilities example_family)
     \<and> (\<forall>k d. map_of (init_probabilities example_family) k = Some d \<longrightarrow>
          (\<exists>g t. gene d (gene_count {''Harry''} {''James''} k) = Some g
             \<and> trait_dist d (k \<in> {''James''}) = Some t
             \<and> map_of probs' k
                 = Some (d\<lparr>gene := (gene d)(gene_count {''Harry''} {''James''} k \<mapsto> g + 0.5),
                          trait_dist := (trait_dist d)((k \<in> {''James''}) \<mapsto> t + 0.5)\<rparr>))))"
proof -
  have d: "{''Harry''} \<inter> {''James''} = ({} :: string set)" by simp
  have i: "is_dict (init_probabilities example_family)"
    by (rule is_dict_init [OF example_family_dict])
  show ?thesis
    by (rule conjI [OF d conjI [OF i conjI [OF table_shape_init
          update_adds_p [OF d i table_shape_init, of "{''James''}" "0.5"]]]])
qed

subsection \<open>The gene count stays in range\<close>

lemma lists_sets_diff:
  "lists_sets list_of names \<Longrightarrow> set (list_of (names - s)) = names - s \<and> distinct (list_of (names - s))"
  unfolding lists_sets_def by (drule spec [of _ "names - s"]) simp

lemma lists_sets_names:
  "lists_sets list_of names \<Longrightarrow> set (list_of names) = names \<and> distinct (list_of names)"
  unfolding lists_sets_def by (drule spec [of _ names]) simp

lemma powerset_diff_disjoint:
  assumes "lists_sets list_of names" and "two_genes \<in> set (powerset list_of (names - one_gene))"
  shows "one_gene \<inter> two_genes = {}"
proof -
  from lists_sets_diff [OF assms(1)] have "set (list_of (names - one_gene)) = names - one_gene"
    by simp
  then have "set (powerset list_of (names - one_gene)) = Pow (names - one_gene)"
    by (rule set_powerset)
  with assms(2) show ?thesis by auto
qed

lemma example_lists_sets: "lists_sets example_list_of (set (map fst example_family))"
  unfolding lists_sets_def example_list_of_def example_family_def by auto

text \<open>
  C9.  When \<open>one_gene\<close> and \<open>two_genes\<close> are disjoint, the gene count computed for a
  person (or for a parent that is \<open>None\<close>) is at most 2, \<open>joint_probability\<close> returns a
  value on every population, and \<open>update\<close> returns a table on every table of the shape
  \<open>main\<close> builds.  The sets the enumeration pairs are disjoint: every \<open>two_genes\<close> taken
  from \<open>powerset(names - one_gene)\<close> is disjoint from \<open>one_gene\<close>.  The count 3, for
  which \<open>PROBS\<close> has no entry, is the count of a person in both sets and of nobody else.
\<close>

theorem gene_count_in_range:
  "(one_gene \<inter> two_genes = {} \<longrightarrow>
      n_genes_of x one_gene two_genes \<le> 2
      \<and> (\<exists>v. joint_probability people one_gene two_genes have_trait = Inr v)
      \<and> (is_dict probabilities \<and> table_shape probabilities \<longrightarrow>
           (\<exists>probs'. update probabilities one_gene two_genes have_trait p = Inr probs')))
   \<and> (lists_sets list_of names \<and> tg \<in> set (powerset list_of (names - og)) \<longrightarrow> og \<inter> tg = {})
   \<and> (n_genes_of (Some y) s1 s2 = 3) = (y \<in> s1 \<and> y \<in> s2)"
proof (intro conjI impI)
  show "(n_genes_of (Some y) s1 s2 = 3) = (y \<in> s1 \<and> y \<in> s2)"
    by (rule n_genes_of_eq_3)
next
  assume d: "one_gene \<inter> two_genes = {}"
  show "n_genes_of x one_gene two_genes \<le> 2" by (rule n_genes_of_le_2 [OF d])
  show "\<exists>v. joint_probability people one_gene two_genes have_trait = Inr v"
    by (simp only: joint_probability_eq [OF d]) blast
  assume "is_dict probabilities \<and> table_shape probabilities"
  then show "\<exists>probs'. update probabilities one_gene two_genes have_trait p = Inr probs'"
    by (simp only: update_eq [OF d]) blast
next
  assume "lists_sets list_of names \<and> tg \<in> set (powerset list_of (names - og))"
  then show "og \<inter> tg = {}" using powerset_diff_disjoint by blast
qed


theorem gene_count_in_range_witness:
  "{''Harry''} \<inter> {''James''} = ({} :: string set)
   \<and> is_dict (init_probabilities example_family)
   \<and> table_shape (init_probabilities example_family)
   \<and> lists_sets example_list_of (set (map fst example_family))
   \<and> {''James''} \<in> set (powerset example_list_of (set (map fst example_family) - {''Lily''}))
   \<and> n_genes_of (Some ''Harry'') {''Harry''} {''James''} \<le> 2
   \<and> (\<exists>v. joint_probability example_family {''Harry''} {''James''} {''James''} = Inr v)
   \<and> (\<exists>probs'. update (init_probabilities example_family) {''Harry''} {''James''} {''James''} 0.5
         = Inr probs')
   \<and> {''Lily''} \<inter> {''James''} = ({} :: string set)"
proof -
  have d: "{''Harry''} \<inter> {''James''} = ({} :: string set)" by simp
  have i: "is_dict (init_probabilities example_family)"
    by (rule is_dict_init [OF example_family_dict])
  have "set (example_list_of (set (map fst example_family) - {''Lily''}))
      = set (map fst example_family) - {''Lily''}"
    using lists_sets_diff [OF example_lists_sets] by blast
  then have "set (powerset example_list_of (set (map fst example_family) - {''Lily''}))
      = Pow (set (map fst example_family) - {''Lily''})"
    by (rule set_powerset)
  then have m: "{''James''}
      \<in> set (powerset example_list_of (set (map fst example_family) - {''Lily''}))"
    by (simp add: example_family_def)
  note t = gene_count_in_range [of "{''Harry''}" "{''James''}" "Some ''Harry''" example_family
      "{''James''}" "init_probabilities example_family" "0.5" example_list_of
      "set (map fst example_family)" "{''James''}" "{''Lily''}"]
  have a: "n_genes_of (Some ''Harry'') {''Harry''} {''James''} \<le> 2
      \<and> (\<exists>v. joint_probability example_family {''Harry''} {''James''} {''James''} = Inr v)
      \<and> (is_dict (init_probabilities example_family)
             \<and> table_shape (init_probabilities example_family) \<longrightarrow>
           (\<exists>probs'. update (init_probabilities example_family) {''Harry''} {''James''}
               {''James''} 0.5 = Inr probs'))"
    by (rule mp [OF conjunct1 [OF t] d])
  have a1: "n_genes_of (Some ''Harry'') {''Harry''} {''James''} \<le> 2"
    by (rule conjunct1 [OF a])
  have a2: "\<exists>v. joint_probability example_family {''Harry''} {''James''} {''James''} = Inr v"
    by (rule conjunct1 [OF conjunct2 [OF a]])
  have a3: "\<exists>probs'. update (init_probabilities example_family) {''Harry''} {''James''}
               {''James''} 0.5 = Inr probs'"
    by (rule mp [OF conjunct2 [OF conjunct2 [OF a]] conjI [OF i table_shape_init]])
  have b: "{''Lily''} \<inter> {''James''} = ({} :: string set)"
    by (rule mp [OF conjunct1 [OF conjunct2 [OF t]] conjI [OF example_lists_sets m]])
  show ?thesis
    by (intro conjI) (fact d, fact i, fact table_shape_init, fact example_lists_sets, fact m,
      fact a1, fact a2, fact a3, fact b)
qed

subsection \<open>\<open>normalize\<close> divides every distribution by its sum\<close>

lemma upt_0_3: "[0 ..< 3] = [0, 1, 2]"
  by (simp add: upt_rec)

lemma normalize_entry_eq:
  assumes "dom (gene d) = {0, 1, 2}" and "dom (trait_dist d) = UNIV"
  shows "normalize_entry d
       = (if gene_sum d = 0 \<or> trait_sum d = 0 then Inl ZeroDivisionError
          else Inr (normalized d))"
proof -
  from assms(1) have "0 \<in> dom (gene d)" "1 \<in> dom (gene d)" "2 \<in> dom (gene d)" by simp_all
  then obtain g0 g1 g2 where g: "gene d 0 = Some g0" "gene d 1 = Some g1" "gene d 2 = Some g2"
    by blast
  from assms(2) have "True \<in> dom (trait_dist d)" "False \<in> dom (trait_dist d)" by simp_all
  then obtain t f where t: "trait_dist d True = Some t" "trait_dist d False = Some f"
    by blast
  show ?thesis
    unfolding normalize_entry_def upt_0_3
    by (simp add: g t getitem_def py_div_def divide_trait_def gene_sum_def trait_sum_def
          normalized_def Let_def del: One_nat_def)
qed

lemma normalize_loop_eq:
  "distinct (map fst (xs @ ys)) \<Longrightarrow> table_shape ys \<Longrightarrow>
     normalize_loop (map fst ys) (xs @ ys)
       = (if \<exists>(k, d)\<in>set ys. zero_sum d then Inl ZeroDivisionError
          else Inr (xs @ map (\<lambda>(k, d). (k, normalized d)) ys))"
proof (induction ys arbitrary: xs)
  case Nil
  show ?case by simp
next
  case (Cons a ys)
  obtain k d where a: "a = (k, d)" by (cases a)
  from Cons.prems(1) have fresh: "k \<notin> fst ` set xs" by (auto simp: a)
  from Cons.prems(2) have shape: "dom (gene d) = {0, 1, 2}" "dom (trait_dist d) = UNIV"
      "table_shape ys"
    by (simp_all add: a table_shape_Cons)
  have l: "getitem (map_of (xs @ (k, d) # ys)) k = Inr d"
    unfolding getitem_def by (simp only: map_of_append_fresh [OF fresh] option.case)
  note e = normalize_entry_eq [OF shape(1,2), folded zero_sum_def]
  show ?case
  proof (cases "zero_sum d")
    case True
    then show ?thesis
      by (simp add: a l e del: map_of_append map_of.simps)
  next
    case False
    from Cons.prems(1) have d': "distinct (map fst ((xs @ [(k, normalized d)]) @ ys))"
      by (simp add: a)
    have "normalize_loop (map fst (a # ys)) (xs @ a # ys)
        = normalize_loop (map fst ys) ((xs @ [(k, normalized d)]) @ ys)"
      using False
      by (simp add: a l e update_append_fresh [OF fresh] del: map_of_append map_of.simps)
    also note Cons.IH [OF d' shape(3)]
    finally show ?thesis using False by (simp add: a)
  qed
qed

lemma normalize_eq:
  assumes "is_dict probabilities" and "table_shape probabilities"
  shows "normalize probabilities
       = (if \<exists>(k, d)\<in>set probabilities. zero_sum d then Inl ZeroDivisionError
          else Inr (map (\<lambda>(k, d). (k, normalized d)) probabilities))"
  using normalize_loop_eq [of "[]" probabilities] assms
  by (simp add: normalize_def is_dict_def)

lemma gene_sum_normalized:
  assumes "gene_sum d \<noteq> 0"
  shows "gene_sum (normalized d) = 1"
  using assms
  by (simp add: gene_sum_def normalized_def del: One_nat_def flip: add_divide_distrib)

lemma trait_sum_normalized:
  assumes "trait_sum d \<noteq> 0"
  shows "trait_sum (normalized d) = 1"
  using assms
  by (simp add: trait_sum_def normalized_def flip: add_divide_distrib)

lemma gene_normalized:
  assumes "dom (gene d) = {0, 1, 2}" and "gene d i = Some v"
  shows "gene (normalized d) i = Some (v / gene_sum d)"
proof -
  from assms have "i \<in> {0, 1, 2}" by blast
  with assms(2) show ?thesis by (auto simp: normalized_def simp del: One_nat_def)
qed

lemma trait_normalized:
  assumes "trait_dist d b = Some v"
  shows "trait_dist (normalized d) b = Some (v / trait_sum d)"
  using assms by (cases b) (simp_all add: normalized_def)

lemma bex_zero_sum:
  "(\<exists>(k, d)\<in>set probabilities. zero_sum d)
     = (\<exists>(k, d)\<in>set probabilities. gene_sum d = 0 \<or> trait_sum d = 0)"
  by (simp add: zero_sum_def)

lemma ball_not_zero_sum:
  "(\<forall>(k, d)\<in>set probabilities. gene_sum d \<noteq> 0 \<and> trait_sum d \<noteq> 0)
     \<Longrightarrow> \<not> (\<exists>(k, d)\<in>set probabilities. zero_sum d)"
  by (auto simp: zero_sum_def)

text \<open>
  C5.  On a table in which every person's three gene buckets and two trait buckets have
  nonzero sums, \<open>normalize\<close> returns the table with the same keys in which every gene
  bucket is its old value divided by the old gene sum and every trait bucket its old
  value divided by the old trait sum; in the result every gene distribution and every
  trait distribution sums to 1.
\<close>

theorem normalize_divides_by_sums:
  assumes "is_dict probabilities" and "table_shape probabilities"
    and "\<forall>(k, d)\<in>set probabilities. gene_sum d \<noteq> 0 \<and> trait_sum d \<noteq> 0"
  shows "\<exists>probs'. normalize probabilities = Inr probs'
     \<and> map fst probs' = map fst probabilities
     \<and> (\<forall>k d. map_of probabilities k = Some d \<longrightarrow>
          (\<exists>d'. map_of probs' k = Some d'
             \<and> (\<forall>i v. gene d i = Some v \<longrightarrow> gene d' i = Some (v / gene_sum d))
             \<and> (\<forall>b v. trait_dist d b = Some v \<longrightarrow> trait_dist d' b = Some (v / trait_sum d))
             \<and> gene_sum d' = 1 \<and> trait_sum d' = 1))"
proof -
  let ?probs' = "map (\<lambda>(k, d). (k, normalized d)) probabilities"
  have 1: "normalize probabilities = Inr ?probs'"
    by (simp only: normalize_eq [OF assms(1,2)] ball_not_zero_sum [OF assms(3)] if_False)
  have 2: "map fst ?probs' = map fst probabilities"
    by (rule map_fst_map_entries)
  have 3: "\<forall>k d. map_of probabilities k = Some d \<longrightarrow>
          (\<exists>d'. map_of ?probs' k = Some d'
             \<and> (\<forall>i v. gene d i = Some v \<longrightarrow> gene d' i = Some (v / gene_sum d))
             \<and> (\<forall>b v. trait_dist d b = Some v \<longrightarrow> trait_dist d' b = Some (v / trait_sum d))
             \<and> gene_sum d' = 1 \<and> trait_sum d' = 1)"
  proof (intro allI impI)
    fix k d
    assume l: "map_of probabilities k = Some d"
    then have m: "(k, d) \<in> set probabilities" by (rule map_of_SomeD)
    with assms(3) have nz: "gene_sum d \<noteq> 0" "trait_sum d \<noteq> 0" by auto
    from table_shape_lookup [OF assms(2) l] have sh: "dom (gene d) = {0, 1, 2}" by simp
    have "map_of ?probs' k = Some (normalized d)"
      by (simp add: map_of_map_entries l)
    moreover have "\<forall>i v. gene d i = Some v \<longrightarrow> gene (normalized d) i = Some (v / gene_sum d)"
      using gene_normalized [OF sh] by blast
    moreover have "\<forall>b v. trait_dist d b = Some v \<longrightarrow>
        trait_dist (normalized d) b = Some (v / trait_sum d)"
      using trait_normalized by blast
    ultimately show "\<exists>d'. map_of ?probs' k = Some d'
             \<and> (\<forall>i v. gene d i = Some v \<longrightarrow> gene d' i = Some (v / gene_sum d))
             \<and> (\<forall>b v. trait_dist d b = Some v \<longrightarrow> trait_dist d' b = Some (v / trait_sum d))
             \<and> gene_sum d' = 1 \<and> trait_sum d' = 1"
      using gene_sum_normalized [OF nz(1)] trait_sum_normalized [OF nz(2)] by simp
  qed
  show ?thesis
    by (rule exI [of _ ?probs']) (rule conjI [OF 1 conjI [OF 2 3]])
qed

lemma example_table_dict: "is_dict example_table"
  by (simp add: is_dict_def example_table_def)

lemma example_table_shape: "table_shape example_table"
  by (simp add: table_shape_def example_table_def example_james_def example_lily_def UNIV_bool
        del: One_nat_def)

lemma example_sums:
  "gene_sum example_james = 6" "trait_sum example_james = 4"
  "gene_sum example_lily = 2" "trait_sum example_lily = 2"
  by (simp_all add: gene_sum_def trait_sum_def example_james_def example_lily_def
        del: One_nat_def)

lemma example_table_nonzero:
  "\<forall>(k, d)\<in>set example_table. gene_sum d \<noteq> 0 \<and> trait_sum d \<noteq> 0"
  by (simp add: example_table_def example_sums)

theorem normalize_divides_by_sums_witness:
  "is_dict example_table \<and> table_shape example_table
   \<and> gene_sum example_james \<noteq> 0 \<and> trait_sum example_james \<noteq> 0
   \<and> gene_sum example_lily \<noteq> 0 \<and> trait_sum example_lily \<noteq> 0
   \<and> (\<exists>probs'. normalize example_table = Inr probs'
     \<and> map fst probs' = map fst example_table
     \<and> (\<forall>k d. map_of example_table k = Some d \<longrightarrow>
          (\<exists>d'. map_of probs' k = Some d'
             \<and> (\<forall>i v. gene d i = Some v \<longrightarrow> gene d' i = Some (v / gene_sum d))
             \<and> (\<forall>b v. trait_dist d b = Some v \<longrightarrow> trait_dist d' b = Some (v / trait_sum d))
             \<and> gene_sum d' = 1 \<and> trait_sum d' = 1)))"
proof -
  have n: "gene_sum example_james \<noteq> 0" "trait_sum example_james \<noteq> 0"
      "gene_sum example_lily \<noteq> 0" "trait_sum example_lily \<noteq> 0"
    by (simp_all add: example_sums)
  note t = normalize_divides_by_sums [OF example_table_dict example_table_shape
      example_table_nonzero]
  show ?thesis
    by (intro conjI) (fact example_table_dict, fact example_table_shape, fact n(1), fact n(2),
      fact n(3), fact n(4), fact t)
qed

lemma gene_sum_zero_dist: "gene_sum zero_dist = 0"
  by (simp add: gene_sum_def zero_dist_def del: One_nat_def)

lemma normalize_init:
  assumes "is_dict people" and "people \<noteq> []"
  shows "normalize (init_probabilities people) = Inl ZeroDivisionError"
proof -
  from assms(2) obtain a rest where "people = a # rest" by (cases people) auto
  then have "(fst a, zero_dist) \<in> set (init_probabilities people)"
    by (simp add: init_probabilities_def)
  moreover have "zero_sum zero_dist" by (simp add: zero_sum_def gene_sum_zero_dist)
  ultimately have "\<exists>(k, d)\<in>set (init_probabilities people). zero_sum d" by blast
  then show ?thesis
    by (simp only: normalize_eq [OF is_dict_init [OF assms(1)] table_shape_init] if_True)
qed

text \<open>
  C6.  \<open>normalize\<close> raises ZeroDivisionError exactly when some person's gene buckets or
  trait buckets sum to zero; it returns a table when every sum is nonzero, and it raises
  nothing else.  On the table \<open>main\<close> starts from, where every total is still zero,
  it raises ZeroDivisionError whenever the population is not empty.
\<close>

theorem normalize_raises_iff_zero_sum:
  assumes "is_dict probabilities" and "table_shape probabilities"
  shows "(normalize probabilities = Inl ZeroDivisionError)
       = (\<exists>(k, d)\<in>set probabilities. gene_sum d = 0 \<or> trait_sum d = 0)
     \<and> ((\<forall>(k, d)\<in>set probabilities. gene_sum d \<noteq> 0 \<and> trait_sum d \<noteq> 0) \<longrightarrow>
          (\<exists>probs'. normalize probabilities = Inr probs'))
     \<and> normalize probabilities \<noteq> Inl KeyError
     \<and> (is_dict people \<and> people \<noteq> [] \<longrightarrow>
          normalize (init_probabilities people) = Inl ZeroDivisionError)"
proof (intro conjI impI)
  show "(normalize probabilities = Inl ZeroDivisionError)
       = (\<exists>(k, d)\<in>set probabilities. gene_sum d = 0 \<or> trait_sum d = 0)"
    by (simp add: normalize_eq [OF assms] bex_zero_sum)
  show "normalize probabilities \<noteq> Inl KeyError"
    by (simp add: normalize_eq [OF assms])
next
  assume "\<forall>(k, d)\<in>set probabilities. gene_sum d \<noteq> 0 \<and> trait_sum d \<noteq> 0"
  then show "\<exists>probs'. normalize probabilities = Inr probs'"
    by (simp only: normalize_eq [OF assms] ball_not_zero_sum if_False) blast
next
  assume "is_dict people \<and> people \<noteq> []"
  then show "normalize (init_probabilities people) = Inl ZeroDivisionError"
    using normalize_init by blast
qed

theorem normalize_raises_iff_zero_sum_witness:
  "is_dict example_table \<and> table_shape example_table
   \<and> gene_sum example_james \<noteq> 0 \<and> trait_sum example_james \<noteq> 0
   \<and> gene_sum example_lily \<noteq> 0 \<and> trait_sum example_lily \<noteq> 0
   \<and> (\<exists>probs'. normalize example_table = Inr probs')
   \<and> is_dict example_family \<and> example_family \<noteq> []
   \<and> normalize (init_probabilities example_family) = Inl ZeroDivisionError"
proof -
  have n: "gene_sum example_james \<noteq> 0" "trait_sum example_james \<noteq> 0"
      "gene_sum example_lily \<noteq> 0" "trait_sum example_lily \<noteq> 0"
    by (simp_all add: example_sums)
  have e: "example_family \<noteq> []" by (simp add: example_family_def)
  note t = normalize_raises_iff_zero_sum [OF example_table_dict example_table_shape,
      of example_family]
  have a: "\<exists>probs'. normalize example_table = Inr probs'"
    by (rule mp [OF conjunct1 [OF conjunct2 [OF t]] example_table_nonzero])
  have b: "normalize (init_probabilities example_family) = Inl ZeroDivisionError"
    by (rule mp [OF conjunct2 [OF conjunct2 [OF conjunct2 [OF t]]]
          conjI [OF example_family_dict e]])
  show ?thesis
    by (intro conjI) (fact example_table_dict, fact example_table_shape, fact n(1), fact n(2),
      fact n(3), fact n(4), fact a, fact example_family_dict, fact e, fact b)
qed

subsection \<open>The two-generation scenario\<close>

lemma joint_probability_set_product:
  assumes "is_dict people" and "one_gene \<inter> two_genes = {}"
  shows "joint_probability people one_gene two_genes have_trait
       = Inr ((\<Prod>k\<in>{k \<in> set (map fst people). no_mother people k}.
                 founder_factor one_gene two_genes have_trait k)
              * (\<Prod>k\<in>{k \<in> set (map fst people). \<not> no_mother people k}.
                 child_term people one_gene two_genes have_trait k))"
proof -
  let ?ks = "map fst people"
  have d: "distinct ?ks" using assms(1) by (simp add: is_dict_def)
  have 1: "(\<Prod>k\<in>set (filter (no_mother people) ?ks). founder_factor one_gene two_genes have_trait k)
      = prod_list (map (founder_factor one_gene two_genes have_trait)
          (filter (no_mother people) ?ks))"
    by (rule prod.distinct_set_conv_list) (rule distinct_filter [OF d])
  have 2: "(\<Prod>k\<in>set (filter (\<lambda>k. \<not> no_mother people k) ?ks).
               child_term people one_gene two_genes have_trait k)
      = prod_list (map (child_term people one_gene two_genes have_trait)
          (filter (\<lambda>k. \<not> no_mother people k) ?ks))"
    by (rule prod.distinct_set_conv_list) (rule distinct_filter [OF d])
  have s1: "{k \<in> set ?ks. no_mother people k} = set (filter (no_mother people) ?ks)" by simp
  have s2: "{k \<in> set ?ks. \<not> no_mother people k} = set (filter (\<lambda>k. \<not> no_mother people k) ?ks)"
    by simp
  show ?thesis
    by (simp only: joint_probability_eq [OF assms(2)] s1 s2 1 2)
qed

text \<open>
  C3, as the code has it.  For one child and its two founder parents, at the hypothesis in
  which all three have 0 copies, \<open>joint_probability\<close> returns
  \<open>0.96 * 0.96 * (1 - mutation) * (1 - mutation)\<close> times the three trait factors
  \<open>trait_given_gene 0\<close>, one for each person's membership in \<open>have_trait\<close>: 0.99 for
  a person outside \<open>have_trait\<close> and 0.01 for a person inside.  The observed traits do
  not matter.
\<close>

theorem two_generation_joint_probability:
  assumes "two_generations people m f c"
  shows "joint_probability people {} {} have_trait
       = Inr (0.96 * 0.96 * ((1 - PROBS_mutation) * (1 - PROBS_mutation))
              * (trait_given_gene 0 (m \<in> have_trait) * trait_given_gene 0 (f \<in> have_trait)
                 * trait_given_gene 0 (c \<in> have_trait)))"
proof -
  from assms have dict: "is_dict people" and keys: "set (map fst people) = {m, f, c}"
    and ne: "m \<noteq> f" "m \<noteq> c" "f \<noteq> c"
    by (auto simp: two_generations_def)
  from assms obtain hm hf hc where
    hm: "map_of people m = Some hm" "mother hm = None" and
    hf: "map_of people f = Some hf" "mother hf = None" and
    hc: "map_of people c = Some hc" "mother hc = Some m" "father hc = Some f"
    by (auto simp: two_generations_def split: option.splits)
  have nm: "no_mother people m" "no_mother people f" "\<not> no_mother people c"
    by (simp_all add: no_mother_def hm hf hc)
  have ps: "{k \<in> set (map fst people). no_mother people k} = {m, f}"
    unfolding keys using nm by auto
  have cs: "{k \<in> set (map fst people). \<not> no_mother people k} = {c}"
    unfolding keys using nm by auto
  have e: "effect 0 = PROBS_mutation" by (simp add: effect_def)
  have ct: "child_term people {} {} have_trait c
      = (1 - PROBS_mutation) * (1 - PROBS_mutation) * trait_given_gene 0 (c \<in> have_trait)"
    by (simp add: child_term_def hc n_genes_of_def gene_count_def child_factor_def e)
  have ff: "founder_factor {} {} have_trait k = 0.96 * trait_given_gene 0 (k \<in> have_trait)" for k
    by (simp add: founder_factor_def gene_count_def gene_prior_def)
  have "joint_probability people {} {} have_trait
      = Inr ((founder_factor {} {} have_trait m * founder_factor {} {} have_trait f)
              * child_term people {} {} have_trait c)"
    using ne by (simp only: joint_probability_set_product [OF dict Int_empty_left] ps cs) simp
  then show ?thesis by (simp only: ct ff) (simp add: mult_ac)
qed

lemma unobserved_two_generations: "two_generations unobserved_family ''Lily'' ''James'' ''Harry''"
  by (simp add: two_generations_def unobserved_family_def is_dict_def) auto

theorem two_generation_joint_probability_witness:
  "two_generations unobserved_family ''Lily'' ''James'' ''Harry''
   \<and> joint_probability unobserved_family {} {} {}
     = Inr (0.96 * 0.96 * ((1 - PROBS_mutation) * (1 - PROBS_mutation))
            * (trait_given_gene 0 False * trait_given_gene 0 False * trait_given_gene 0 False))"
  using unobserved_two_generations
    two_generation_joint_probability [OF unobserved_two_generations, of "{}"]
  by simp

text \<open>
  C3, as stated, fails: whichever of the eight sets \<open>have_trait\<close> is, the value is not
  \<open>0.96 * 0.96 * (1 - mutation) * (1 - mutation)\<close>; with nobody in \<open>have_trait\<close> it is
  that number times \<open>0.99 * 0.99 * 0.99\<close>.
\<close>

theorem two_generation_counterexample:
  "joint_probability unobserved_family {} {} {}
     = Inr (0.96 * 0.96 * (0.99 * 0.99) * (0.99 * 0.99 * 0.99))
   \<and> joint_probability unobserved_family {} {} {}
       \<noteq> Inr (0.96 * 0.96 * (1 - PROBS_mutation) * (1 - PROBS_mutation))
   \<and> joint_probability unobserved_family {} {} {''Harry''}
       \<noteq> Inr (0.96 * 0.96 * (1 - PROBS_mutation) * (1 - PROBS_mutation))
   \<and> joint_probability unobserved_family {} {} {''James''}
       \<noteq> Inr (0.96 * 0.96 * (1 - PROBS_mutation) * (1 - PROBS_mutation))
   \<and> joint_probability unobserved_family {} {} {''Lily''}
       \<noteq> Inr (0.96 * 0.96 * (1 - PROBS_mutation) * (1 - PROBS_mutation))
   \<and> joint_probability unobserved_family {} {} {''Harry'', ''James''}
       \<noteq> Inr (0.96 * 0.96 * (1 - PROBS_mutation) * (1 - PROBS_mutation))
   \<and> joint_probability unobserved_family {} {} {''Harry'', ''Lily''}
       \<noteq> Inr (0.96 * 0.96 * (1 - PROBS_mutation) * (1 - PROBS_mutation))
   \<and> joint_probability unobserved_family {} {} {''James'', ''Lily''}
       \<noteq> Inr (0.96 * 0.96 * (1 - PROBS_mutation) * (1 - PROBS_mutation))
   \<and> joint_probability unobserved_family {} {} {''Harry'', ''James'', ''Lily''}
       \<noteq> Inr (0.96 * 0.96 * (1 - PROBS_mutation) * (1 - PROBS_mutation))"
  by (simp add: joint_probability_def unobserved_family_def getitem_def n_genes_of_def
        effect_def PROBS_gene_def PROBS_trait_def PROBS_mutation_def)

subsection \<open>The hypotheses the loops of \<open>main\<close> enumerate\<close>

lemma run_body_append:
  "run_body body (xs @ ys) st
     = (case run_body body xs st of Inl e \<Rightarrow> Inl e | Inr st' \<Rightarrow> run_body body ys st')"
  by (induction xs arbitrary: st) (auto split: sum.splits)

lemma loop_two_genes_run:
  "loop_two_genes body have_trait one_gene tgs st
     = run_body body (map (\<lambda>two_genes. (one_gene, two_genes, have_trait)) tgs) st"
  by (induction tgs arbitrary: st) (auto split: sum.splits)

lemma loop_one_gene_run:
  "loop_one_gene list_of names body have_trait ogs st
     = run_body body
         (concat (map (\<lambda>one_gene.
             map (\<lambda>two_genes. (one_gene, two_genes, have_trait))
               (powerset list_of (names - one_gene))) ogs)) st"
  by (induction ogs arbitrary: st)
     (auto simp: run_body_append loop_two_genes_run split: sum.splits)

lemma loop_have_trait_run:
  "loop_have_trait list_of people names body hts st
     = run_body body
         (concat (map (gene_pairs list_of names)
            (filter (\<lambda>have_trait. \<not> fails_evidence people names have_trait) hts))) st"
  by (induction hts arbitrary: st)
     (auto simp: run_body_append loop_one_gene_run gene_pairs_def split: sum.splits)

lemma enumeration_run:
  "enumeration list_of people body st = run_body body (hypotheses list_of people) st"
  by (simp add: enumeration_def hypotheses_def hypotheses_on_def Let_def loop_have_trait_run)

lemma set_gene_pairs:
  assumes "lists_sets list_of names"
  shows "set (gene_pairs list_of names have_trait)
       = {(og, tg, ht). og \<subseteq> names \<and> tg \<subseteq> names - og \<and> ht = have_trait}"
proof -
  have 1: "set (powerset list_of names) = Pow names"
    using lists_sets_names [OF assms] by (simp add: set_powerset)
  have 2: "set (powerset list_of (names - og)) = Pow (names - og)" for og
    using lists_sets_diff [OF assms, of og] by (simp add: set_powerset)
  show ?thesis
    unfolding gene_pairs_def by (auto simp: 1 2)
qed

lemma distinct_concat_map:
  assumes "distinct xs" and "\<And>x. x \<in> set xs \<Longrightarrow> distinct (f x)"
    and "\<And>x y. x \<in> set xs \<Longrightarrow> y \<in> set xs \<Longrightarrow> x \<noteq> y \<Longrightarrow> set (f x) \<inter> set (f y) = {}"
  shows "distinct (concat (map f xs))"
  using assms
proof (induction xs)
  case Nil
  show ?case by simp
next
  case (Cons x xs)
  have "set (f x) \<inter> set (f y) = {}" if "y \<in> set xs" for y
    using Cons.prems(1) that by (intro Cons.prems(3)) auto
  moreover have "distinct (concat (map f xs))"
    using Cons.prems by (intro Cons.IH) auto
  ultimately show ?case using Cons.prems(2) [of x] by auto
qed

lemma distinct_gene_pairs:
  assumes "lists_sets list_of names"
  shows "distinct (gene_pairs list_of names have_trait)"
  unfolding gene_pairs_def
proof (rule distinct_concat_map)
  show "distinct (powerset list_of names)"
    using lists_sets_names [OF assms] by (simp add: distinct_powerset)
next
  fix og
  have "distinct (powerset list_of (names - og))"
    using lists_sets_diff [OF assms, of og] by (simp add: distinct_powerset)
  then show "distinct (map (\<lambda>two_genes. (og, two_genes, have_trait))
      (powerset list_of (names - og)))"
    by (simp add: distinct_map inj_on_def)
next
  fix og og' :: "string set"
  assume "og \<noteq> og'"
  then show "set (map (\<lambda>two_genes. (og, two_genes, have_trait)) (powerset list_of (names - og)))
      \<inter> set (map (\<lambda>two_genes. (og', two_genes, have_trait)) (powerset list_of (names - og')))
      = {}"
    by auto
qed

lemma set_hypotheses_on:
  assumes "lists_sets list_of names"
  shows "set (hypotheses_on list_of people names)
       = {(og, tg, ht). og \<subseteq> names \<and> tg \<subseteq> names - og \<and> ht \<subseteq> names
            \<and> \<not> fails_evidence people names ht}"
proof -
  have 1: "set (powerset list_of names) = Pow names"
    using lists_sets_names [OF assms] by (simp add: set_powerset)
  show ?thesis
    unfolding hypotheses_on_def
    by (auto simp: 1 set_gene_pairs [OF assms])
qed

lemma distinct_hypotheses_on:
  assumes "lists_sets list_of names"
  shows "distinct (hypotheses_on list_of people names)"
  unfolding hypotheses_on_def
proof (rule distinct_concat_map)
  show "distinct (filter (\<lambda>have_trait. \<not> fails_evidence people names have_trait)
      (powerset list_of names))"
    using lists_sets_names [OF assms] by (simp add: distinct_powerset)
next
  fix ht
  show "distinct (gene_pairs list_of names ht)"
    by (rule distinct_gene_pairs [OF assms])
next
  fix ht ht' :: "string set"
  assume "ht \<noteq> ht'"
  then show "set (gene_pairs list_of names ht) \<inter> set (gene_pairs list_of names ht') = {}"
    by (auto simp: set_gene_pairs [OF assms])
qed

lemma sum_list_powerset:
  fixes g :: "'a set \<Rightarrow> nat"
  shows "sum_list (map g (powerset list_of s)) = sum_list (map (\<lambda>ys. g (set ys)) (subseqs (list_of s)))"
proof -
  have "sum_list (map g (powerset list_of s)) = sum_mset (image_mset g (mset (powerset list_of s)))"
    by (simp flip: sum_mset_sum_list)
  also have "\<dots> = sum_mset (image_mset (\<lambda>ys. g (set ys)) (mset (subseqs (list_of s))))"
    by (simp only: mset_powerset image_mset.compositionality comp_def)
  also have "\<dots> = sum_list (map (\<lambda>ys. g (set ys)) (subseqs (list_of s)))"
    by (simp flip: sum_mset_sum_list)
  finally show ?thesis .
qed

lemma card_diff_subseq:
  assumes "distinct l" and "ys \<in> set (subseqs l)"
  shows "card (set l - set ys) = length l - length ys"
proof -
  have d: "distinct ys" by (rule subseqs_distinctD [OF assms(2,1)])
  have "set ys \<in> set ` set (subseqs l)" using assms(2) by blast
  then have sub: "set ys \<subseteq> set l" by (simp add: subseqs_powset)
  have "card (set l - set ys) = card (set l) - card (set ys)"
    by (rule card_Diff_subset) (simp_all add: sub)
  then show ?thesis by (simp add: distinct_card assms(1) d)
qed

lemma length_gene_pairs:
  assumes "lists_sets list_of names"
  shows "length (gene_pairs list_of names have_trait) = 3 ^ length (list_of names)"
proof -
  let ?l = "list_of names"
  have l: "set ?l = names" "distinct ?l" using lists_sets_names [OF assms] by simp_all
  have len: "length (powerset list_of (names - og)) = 2 ^ card (names - og)" for og
  proof -
    have "distinct (list_of (names - og))" "set (list_of (names - og)) = names - og"
      using lists_sets_diff [OF assms, of og] by simp_all
    then have "length (list_of (names - og)) = card (names - og)"
      by (metis distinct_card)
    then show ?thesis by (simp add: length_powerset)
  qed
  have "length (gene_pairs list_of names have_trait)
      = sum_list (map (\<lambda>og. 2 ^ card (names - og)) (powerset list_of names))"
    by (simp add: gene_pairs_def length_concat comp_def len)
  also have "\<dots> = sum_list (map (\<lambda>ys. 2 ^ card (names - set ys)) (subseqs ?l))"
    by (rule sum_list_powerset)
  also have "\<dots> = sum_list (map (\<lambda>ys. 2 ^ (length ?l - length ys)) (subseqs ?l))"
  proof (rule arg_cong [where f = sum_list], rule map_cong [OF refl])
    fix ys assume "ys \<in> set (subseqs ?l)"
    from card_diff_subseq [OF l(2) this] show "(2::nat) ^ card (names - set ys) = 2 ^ (length ?l - length ys)"
      by (simp add: l(1))
  qed
  also have "\<dots> = 3 ^ length ?l" by (rule sum_subseqs_pow)
  finally show ?thesis .
qed

lemma length_hypotheses_on:
  assumes "lists_sets list_of names"
  shows "length (hypotheses_on list_of people names)
       = length (filter (\<lambda>have_trait. \<not> fails_evidence people names have_trait)
           (powerset list_of names)) * 3 ^ length (list_of names)"
  by (simp add: hypotheses_on_def length_concat comp_def length_gene_pairs [OF assms]
        sum_list_triv)

lemma fails_evidence_observed:
  "fails_evidence people names ht
     = (\<exists>p\<in>names. observed people p \<noteq> None \<and> observed people p \<noteq> Some (p \<in> ht))"
  unfolding fails_evidence_def observed_def
  by (rule bex_cong [OF refl]) (simp split: option.splits)

lemma admissible_sets:
  "{ht \<in> Pow names. \<not> fails_evidence people names ht}
     = (\<lambda>u. u \<union> {p \<in> names. observed people p = Some True})
         ` Pow {p \<in> names. observed people p = None}"
  (is "?A = ?f ` Pow ?U")
proof (rule set_eqI, rule iffI)
  fix ht assume "ht \<in> ?A"
  then have sub: "ht \<subseteq> names"
    and ok: "\<And>p. p \<in> names \<Longrightarrow> observed people p = None \<or> observed people p = Some (p \<in> ht)"
    by (auto simp: fails_evidence_observed)
  have "ht = ?f (ht \<inter> ?U)"
  proof (rule set_eqI)
    fix p
    show "p \<in> ht \<longleftrightarrow> p \<in> ?f (ht \<inter> ?U)"
    proof (cases "p \<in> names")
      case True
      from ok [OF True] True show ?thesis by (cases "observed people p") auto
    next
      case False
      with sub show ?thesis by auto
    qed
  qed
  moreover have "ht \<inter> ?U \<in> Pow ?U" by blast
  ultimately show "ht \<in> ?f ` Pow ?U" by (rule image_eqI)
next
  fix ht assume "ht \<in> ?f ` Pow ?U"
  then obtain u where u: "u \<subseteq> ?U" and ht: "ht = ?f u" by blast
  have "ht \<subseteq> names" using u ht by auto
  moreover have "observed people p = None \<or> observed people p = Some (p \<in> ht)"
    if "p \<in> names" for p
  proof (cases "observed people p")
    case None
    then show ?thesis by simp
  next
    case (Some b)
    with u have "p \<notin> u" by auto
    with Some that show ?thesis by (cases b) (auto simp: ht)
  qed
  ultimately show "ht \<in> ?A" by (auto simp: fails_evidence_observed)
qed

lemma card_admissible_sets:
  assumes "finite names"
  shows "card {ht \<in> Pow names. \<not> fails_evidence people names ht}
       = 2 ^ card {p \<in> names. observed people p = None}"
proof -
  let ?T = "{p \<in> names. observed people p = Some True}"
  let ?U = "{p \<in> names. observed people p = None}"
  have "inj_on (\<lambda>u. u \<union> ?T) (Pow ?U)"
  proof (rule inj_onI)
    fix u v assume "u \<in> Pow ?U" "v \<in> Pow ?U" "u \<union> ?T = v \<union> ?T"
    moreover have "?U \<inter> ?T = {}" by auto
    ultimately show "u = v" by blast
  qed
  then have "card ((\<lambda>u. u \<union> ?T) ` Pow ?U) = card (Pow ?U)" by (rule card_image)
  also have "\<dots> = 2 ^ card ?U" using assms by (simp add: card_Pow)
  finally show ?thesis by (simp only: admissible_sets)
qed

lemma card_unobserved:
  assumes "is_dict people"
  shows "card {p \<in> set (map fst people). observed people p = None}
       = length people - length (filter (\<lambda>(p, h). trait h \<noteq> None) people)"
proof -
  have d: "distinct (map fst people)" using assms by (simp add: is_dict_def)
  have "{p \<in> set (map fst people). observed people p = None}
      = set (map fst (filter (\<lambda>(p, h). trait h = None) people))"
  proof (rule set_eqI, rule iffI)
    fix p assume "p \<in> {p \<in> set (map fst people). observed people p = None}"
    then have k: "p \<in> set (map fst people)" and o: "observed people p = None" by simp_all
    from getitem_key [OF k] obtain h where h: "map_of people p = Some h" by blast
    with o have "trait h = None" by (simp add: observed_def)
    moreover from h have "(p, h) \<in> set people" by (rule map_of_SomeD)
    ultimately show "p \<in> set (map fst (filter (\<lambda>(p, h). trait h = None) people))"
      by force
  next
    fix p assume "p \<in> set (map fst (filter (\<lambda>(p, h). trait h = None) people))"
    then obtain h where m: "(p, h) \<in> set people" and t: "trait h = None" by auto
    from m d have "map_of people p = Some h" by simp
    with t have "observed people p = None" by (simp add: observed_def)
    moreover from m have "p \<in> set (map fst people)" by force
    ultimately show "p \<in> {p \<in> set (map fst people). observed people p = None}" by simp
  qed
  moreover have "card (set (map fst (filter (\<lambda>(p, h). trait h = None) people)))
      = length (map fst (filter (\<lambda>(p, h). trait h = None) people))"
    by (rule distinct_card) (rule distinct_map_filter [OF d])
  ultimately have "card {p \<in> set (map fst people). observed people p = None}
      = length (filter (\<lambda>(p, h). trait h = None) people)"
    by (simp only: length_map)
  moreover have "length (filter (\<lambda>(p, h). trait h \<noteq> None) people)
      + length (filter (\<lambda>(p, h). trait h = None) people) = length people"
    using sum_length_filter_compl [of "\<lambda>(p, h). trait h \<noteq> None" people]
    by (simp add: case_prod_unfold)
  ultimately show ?thesis by simp
qed

lemma fails_evidence_dict:
  assumes "is_dict people"
  shows "fails_evidence people (set (map fst people)) ht
       = (\<not> (\<forall>(p, h)\<in>set people. trait h = None \<or> trait h = Some (p \<in> ht)))"
proof -
  have d: "distinct (map fst people)" using assms by (simp add: is_dict_def)
  show ?thesis
  proof (rule iffI)
    assume "fails_evidence people (set (map fst people)) ht"
    then obtain p where "p \<in> set (map fst people)"
      and c: "case map_of people p of None \<Rightarrow> False
              | Some h \<Rightarrow> trait h \<noteq> None \<and> trait h \<noteq> Some (p \<in> ht)"
      unfolding fails_evidence_def by blast
    then obtain h where h: "map_of people p = Some h" by (cases "map_of people p") auto
    then have "(p, h) \<in> set people" by (rule map_of_SomeD)
    moreover from c h have "trait h \<noteq> None \<and> trait h \<noteq> Some (p \<in> ht)" by simp
    ultimately show "\<not> (\<forall>(p, h)\<in>set people. trait h = None \<or> trait h = Some (p \<in> ht))"
      by fastforce
  next
    assume "\<not> (\<forall>(p, h)\<in>set people. trait h = None \<or> trait h = Some (p \<in> ht))"
    then obtain p h where m: "(p, h) \<in> set people"
      and t: "trait h \<noteq> None \<and> trait h \<noteq> Some (p \<in> ht)" by fastforce
    from m d have "map_of people p = Some h" by simp
    moreover from m have "p \<in> set (map fst people)" by force
    ultimately show "fails_evidence people (set (map fst people)) ht"
      unfolding fails_evidence_def using t by (intro bexI [of _ p]) simp_all
  qed
qed

lemma set_hypotheses:
  assumes "is_dict people" and "lists_sets list_of (set (map fst people))"
  shows "set (hypotheses list_of people) = {(og, tg, ht). admissible people og tg ht}"
  unfolding hypotheses_def set_hypotheses_on [OF assms(2)] admissible_def
    fails_evidence_dict [OF assms(1)]
  by auto

lemma length_hypotheses:
  assumes "is_dict people" and "lists_sets list_of (set (map fst people))"
  shows "length (hypotheses list_of people)
       = 2 ^ (length people - length (filter (\<lambda>(p, h). trait h \<noteq> None) people))
           * 3 ^ length people"
proof -
  let ?names = "set (map fst people)"
  let ?A = "\<lambda>have_trait. \<not> fails_evidence people ?names have_trait"
  have l: "set (list_of ?names) = ?names" "distinct (list_of ?names)"
    using lists_sets_names [OF assms(2)] by simp_all
  have "card (set (list_of ?names)) = length (list_of ?names)"
    by (rule distinct_card [OF l(2)])
  moreover have "card (set (map fst people)) = length (map fst people)"
    by (rule distinct_card) (use assms(1) in \<open>simp add: is_dict_def\<close>)
  ultimately have n: "length (list_of ?names) = length people"
    by (simp only: l(1) length_map)
  have p: "set (powerset list_of ?names) = Pow ?names"
    by (rule set_powerset [of list_of ?names, OF l(1)])
  have "length (filter ?A (powerset list_of ?names))
      = card ({ht. ?A ht} \<inter> set (powerset list_of ?names))"
    by (rule distinct_length_filter) (rule distinct_powerset [of list_of ?names, OF l(2)])
  also have "{ht. ?A ht} \<inter> set (powerset list_of ?names) = {ht \<in> Pow ?names. ?A ht}"
    unfolding p by blast
  also have "card \<dots> = 2 ^ card {p \<in> ?names. observed people p = None}"
    by (rule card_admissible_sets) simp
  finally have "length (filter ?A (powerset list_of ?names))
      = 2 ^ (length people - length (filter (\<lambda>(p, h). trait h \<noteq> None) people))"
    by (simp only: card_unobserved [OF assms(1)])
  then show ?thesis
    by (simp only: hypotheses_def length_hypotheses_on [OF assms(2)] n)
qed

lemma distinct_hypotheses:
  assumes "lists_sets list_of (set (map fst people))"
  shows "distinct (hypotheses list_of people)"
  unfolding hypotheses_def by (rule distinct_hypotheses_on [OF assms])

subsection \<open>The enumeration is exhaustive and without repetition\<close>

lemma add_p_shape:
  assumes "dom (gene d) = {0, 1, 2}" and "dom (trait_dist d) = UNIV"
  shows "dom (gene (add_p one_gene two_genes have_trait p k d)) = {0, 1, 2}"
    and "dom (trait_dist (add_p one_gene two_genes have_trait p k d)) = UNIV"
proof -
  have "gene_count one_gene two_genes k \<in> {0, 1, 2}" by (simp add: gene_count_def)
  then have "insert (gene_count one_gene two_genes k) {0, 1, 2} = {0, 1, 2}"
    by (rule insert_absorb)
  with assms(1) show "dom (gene (add_p one_gene two_genes have_trait p k d)) = {0, 1, 2}"
    by (simp add: add_p_def del: One_nat_def)
  from assms(2) show "dom (trait_dist (add_p one_gene two_genes have_trait p k d)) = UNIV"
    by (simp add: add_p_def)
qed

lemma table_shape_add_p:
  "table_shape probabilities \<Longrightarrow>
     table_shape (map (\<lambda>(k, d). (k, add_p one_gene two_genes have_trait p k d)) probabilities)"
proof (induction probabilities)
  case Nil
  show ?case by (simp add: table_shape_def)
next
  case (Cons a probabilities)
  obtain k d where a: "a = (k, d)" by (cases a)
  from Cons.prems have s: "dom (gene d) = {0, 1, 2}" "dom (trait_dist d) = UNIV"
      "table_shape probabilities"
    by (simp_all add: a table_shape_Cons)
  show ?case
    by (simp only: a list.map prod.case table_shape_Cons add_p_shape [OF s(1,2)]
          Cons.IH [OF s(3)] simp_thms)
qed

lemma main_body_eq:
  assumes "one_gene \<inter> two_genes = {}" and "is_dict probabilities"
    and "table_shape probabilities"
  shows "\<exists>p. joint_probability people one_gene two_genes have_trait = Inr p
     \<and> main_body people one_gene two_genes have_trait probabilities
       = Inr (map (\<lambda>(k, d). (k, add_p one_gene two_genes have_trait p k d)) probabilities)"
  unfolding main_body_def
  by (simp add: joint_probability_eq [OF assms(1)] update_eq [OF assms])

lemma is_dict_map_entries:
  "is_dict probabilities \<Longrightarrow> is_dict (map (\<lambda>(k, d). (k, f k d)) probabilities)"
  unfolding is_dict_def by (simp only: map_fst_map_entries)

lemma logging_body_step:
  "logging_body people og tg ht (probabilities, calls)
     = (case main_body people og tg ht probabilities of
          Inl e \<Rightarrow> Inl e
        | Inr probs' \<Rightarrow> Inr (probs', calls @ [(og, tg, ht)]))"
  by (simp add: logging_body_def split: sum.splits)

lemma run_logging_body:
  assumes "\<forall>(og, tg, ht)\<in>set hyps. og \<inter> tg = {}"
    and "is_dict probabilities" and "table_shape probabilities"
  shows "\<exists>probs'. run_body (logging_body people) hyps (probabilities, calls)
         = Inr (probs', calls @ hyps)
     \<and> run_body (main_body people) hyps probabilities = Inr probs'"
  using assms
proof (induction hyps arbitrary: probabilities calls)
  case Nil
  show ?case by simp
next
  case (Cons a hyps)
  obtain og tg ht where a: "a = (og, tg, ht)" by (cases a)
  from Cons.prems(1) have d: "og \<inter> tg = {}" by (simp add: a)
  from main_body_eq [OF d Cons.prems(2,3), of people ht] obtain p where
    m: "main_body people og tg ht probabilities
        = Inr (map (\<lambda>(k, d). (k, add_p og tg ht p k d)) probabilities)"
    by blast
  let ?next = "map (\<lambda>(k, d). (k, add_p og tg ht p k d)) probabilities"
  from Cons.prems(1) have r: "\<forall>(og, tg, ht)\<in>set hyps. og \<inter> tg = {}" by simp
  from Cons.IH [OF r is_dict_map_entries [OF Cons.prems(2)] table_shape_add_p [OF Cons.prems(3)],
      of og tg ht p "calls @ [a]"]
  obtain probs' where
    "run_body (logging_body people) hyps (?next, calls @ [a]) = Inr (probs', (calls @ [a]) @ hyps)"
    "run_body (main_body people) hyps ?next = Inr probs'"
    by blast
  then show ?case by (simp add: a m logging_body_step)
qed

lemma hypotheses_disjoint:
  assumes "is_dict people" and "lists_sets list_of (set (map fst people))"
  shows "\<forall>(og, tg, ht)\<in>set (hypotheses list_of people). og \<inter> tg = {}"
  unfolding set_hypotheses [OF assms] by (simp add: admissible_def)

lemma main_body_explicit:
  "(\<lambda>one_gene two_genes have_trait probabilities.
       case joint_probability people one_gene two_genes have_trait of
         Inl e \<Rightarrow> Inl e
       | Inr p \<Rightarrow> update probabilities one_gene two_genes have_trait p)
     = main_body people"
  by (intro ext) (simp add: main_body_def)

lemma logging_body_explicit:
  "(\<lambda>one_gene two_genes have_trait st.
       case joint_probability people one_gene two_genes have_trait of
         Inl e \<Rightarrow> Inl e
       | Inr p \<Rightarrow>
           (case update (fst st) one_gene two_genes have_trait p of
              Inl e \<Rightarrow> Inl e
            | Inr probabilities \<Rightarrow>
                Inr (probabilities, snd st @ [(one_gene, two_genes, have_trait)])))
     = logging_body people"
  by (intro ext) (simp add: logging_body_def main_body_def split: sum.splits)

text \<open>
  C2.  For a population of \<open>n\<close> persons, \<open>k\<close> of them with a known trait, there is a
  list \<open>calls\<close> of \<open>2 ^ (n - k) * 3 ^ n\<close> pairwise different hypotheses, exactly the
  admissible ones, such that the loops of \<open>main\<close> are the run, over \<open>calls\<close> in order, of
  the step "\<open>p = joint_probability(...)\<close>, then \<open>update(probabilities, ..., p)\<close>".
  Run from the table of zeros with a step that also records the hypothesis once both
  functions have returned, the loops return the record \<open>calls\<close>: \<open>joint_probability\<close>
  and \<open>update\<close> are each called, and return, once for every admissible hypothesis and for
  nothing else.  The table \<open>probs\<close> of that run is the table \<open>main\<close> normalizes.
\<close>

theorem enumeration_calls_each_hypothesis_once:
  assumes "is_dict people" and "lists_sets list_of (set (map fst people))"
  shows "\<exists>probs calls.
       enumeration list_of people
           (\<lambda>one_gene two_genes have_trait st.
              case joint_probability people one_gene two_genes have_trait of
                Inl e \<Rightarrow> Inl e
              | Inr p \<Rightarrow>
                  (case update (fst st) one_gene two_genes have_trait p of
                     Inl e \<Rightarrow> Inl e
                   | Inr probabilities \<Rightarrow>
                       Inr (probabilities, snd st @ [(one_gene, two_genes, have_trait)])))
           (init_probabilities people, [])
         = Inr (probs, calls)
     \<and> (\<forall>st. enumeration list_of people (main_body people) st
            = run_body
                (\<lambda>one_gene two_genes have_trait probabilities.
                   case joint_probability people one_gene two_genes have_trait of
                     Inl e \<Rightarrow> Inl e
                   | Inr p \<Rightarrow> update probabilities one_gene two_genes have_trait p)
                calls st)
     \<and> enumeration list_of people (main_body people) (init_probabilities people) = Inr probs
     \<and> main list_of people = normalize probs
     \<and> length calls
         = 2 ^ (length people - length (filter (\<lambda>(p, h). trait h \<noteq> None) people))
             * 3 ^ length people
     \<and> distinct calls
     \<and> set calls = {(og, tg, ht). admissible people og tg ht}"
proof -
  let ?hyps = "hypotheses list_of people"
  from run_logging_body [OF hypotheses_disjoint [OF assms] is_dict_init [OF assms(1)]
      table_shape_init, of people "[]"]
  obtain probs where
    1: "run_body (logging_body people) ?hyps (init_probabilities people, []) = Inr (probs, ?hyps)"
    and 2: "run_body (main_body people) ?hyps (init_probabilities people) = Inr probs"
    by auto
  have a: "enumeration list_of people (logging_body people) (init_probabilities people, [])
      = Inr (probs, ?hyps)"
    by (simp only: enumeration_run 1)
  have b: "\<forall>st. enumeration list_of people (main_body people) st
      = run_body (main_body people) ?hyps st"
    by (simp only: enumeration_run simp_thms)
  have c: "enumeration list_of people (main_body people) (init_probabilities people) = Inr probs"
    by (simp only: enumeration_run 2)
  have d: "main list_of people = normalize probs"
    by (simp add: main_def c)
  note e = length_hypotheses [OF assms] distinct_hypotheses [OF assms(2)] set_hypotheses [OF assms]
  show ?thesis
    unfolding main_body_explicit logging_body_explicit
    by (rule exI [of _ probs], rule exI [of _ ?hyps])
       (rule conjI [OF a conjI [OF b conjI [OF c conjI [OF d conjI [OF e(1) conjI [OF e(2) e(3)]]]]]])
qed


theorem enumeration_calls_each_hypothesis_once_witness:
  "is_dict example_family \<and> lists_sets example_list_of (set (map fst example_family))
   \<and> (\<exists>probs calls.
       enumeration example_list_of example_family
           (\<lambda>one_gene two_genes have_trait st.
              case joint_probability example_family one_gene two_genes have_trait of
                Inl e \<Rightarrow> Inl e
              | Inr p \<Rightarrow>
                  (case update (fst st) one_gene two_genes have_trait p of
                     Inl e \<Rightarrow> Inl e
                   | Inr probabilities \<Rightarrow>
                       Inr (probabilities, snd st @ [(one_gene, two_genes, have_trait)])))
           (init_probabilities example_family, [])
         = Inr (probs, calls)
     \<and> (\<forall>st. enumeration example_list_of example_family (main_body example_family) st
            = run_body
                (\<lambda>one_gene two_genes have_trait probabilities.
                   case joint_probability example_family one_gene two_genes have_trait of
                     Inl e \<Rightarrow> Inl e
                   | Inr p \<Rightarrow> update probabilities one_gene two_genes have_trait p)
                calls st)
     \<and> enumeration example_list_of example_family (main_body example_family)
           (init_probabilities example_family) = Inr probs
     \<and> main example_list_of example_family = normalize probs
     \<and> length calls = 54
     \<and> distinct calls
     \<and> set calls = {(og, tg, ht). admissible example_family og tg ht})"
proof -
  have n: "(2::nat) ^ (length example_family
        - length (filter (\<lambda>(p, h). trait h \<noteq> None) example_family))
      * 3 ^ length example_family = 54"
    by (auto simp: example_family_def)
  note t = enumeration_calls_each_hypothesis_once [OF example_family_dict example_lists_sets]
  have e: "\<exists>probs calls.
       enumeration example_list_of example_family
           (\<lambda>one_gene two_genes have_trait st.
              case joint_probability example_family one_gene two_genes have_trait of
                Inl e \<Rightarrow> Inl e
              | Inr p \<Rightarrow>
                  (case update (fst st) one_gene two_genes have_trait p of
                     Inl e \<Rightarrow> Inl e
                   | Inr probabilities \<Rightarrow>
                       Inr (probabilities, snd st @ [(one_gene, two_genes, have_trait)])))
           (init_probabilities example_family, [])
         = Inr (probs, calls)
     \<and> (\<forall>st. enumeration example_list_of example_family (main_body example_family) st
            = run_body
                (\<lambda>one_gene two_genes have_trait probabilities.
                   case joint_probability example_family one_gene two_genes have_trait of
                     Inl e \<Rightarrow> Inl e
                   | Inr p \<Rightarrow> update probabilities one_gene two_genes have_trait p)
                calls st)
     \<and> enumeration example_list_of example_family (main_body example_family)
           (init_probabilities example_family) = Inr probs
     \<and> main example_list_of example_family = normalize probs
     \<and> length calls = 54
     \<and> distinct calls
     \<and> set calls = {(og, tg, ht). admissible example_family og tg ht}"
    using t unfolding n .
  show ?thesis
    by (rule conjI [OF example_family_dict conjI [OF example_lists_sets e]])
qed

subsection \<open>\<open>main\<close> returns a table\<close>

text \<open>
  Every joint probability is positive, so after the loops every entry has the same
  positive gene sum and trait sum, and \<open>normalize\<close> divides by no zero.
\<close>

lemma prod_list_positive: "(\<forall>x\<in>set xs. 0 < f x) \<Longrightarrow> 0 < prod_list (map f xs :: real list)"
  by (induction xs) simp_all

lemma founder_factor_pos: "0 < founder_factor one_gene two_genes have_trait k"
  by (simp add: founder_factor_def gene_prior_def trait_given_gene_def Let_def)

lemma effect_bounds: "n \<le> 2 \<Longrightarrow> 0 < effect n \<and> effect n < 1"
  by (auto dest!: le_2_cases simp: effect_def PROBS_mutation_def)

lemma child_factor_pos:
  assumes "0 < m \<and> m < 1" and "0 < f \<and> f < 1"
  shows "0 < child_factor m f n"
proof -
  from assms have "0 < (1 - m) * (1 - f)" "0 < (1 - m) * f" "0 < m * (1 - f)" "0 < m * f"
    by simp_all
  then show ?thesis by (simp add: child_factor_def add_pos_pos)
qed

lemma trait_given_gene_pos: "0 < trait_given_gene n b"
  by (simp add: trait_given_gene_def)

lemma child_term_pos:
  assumes "one_gene \<inter> two_genes = {}"
  shows "0 < child_term people one_gene two_genes have_trait k"
proof (cases "map_of people k")
  case None
  then show ?thesis by (simp add: child_term_def)
next
  case (Some h)
  have "0 < child_factor (effect (n_genes_of (mother h) one_gene two_genes))
      (effect (n_genes_of (father h) one_gene two_genes)) (gene_count one_gene two_genes k)"
    by (intro child_factor_pos effect_bounds n_genes_of_le_2 assms)
  then show ?thesis by (simp add: child_term_def Some trait_given_gene_pos)
qed

lemma joint_probability_pos:
  assumes "one_gene \<inter> two_genes = {}"
  shows "\<exists>p. joint_probability people one_gene two_genes have_trait = Inr p \<and> 0 < p"
proof -
  have "0 < prod_list (map (founder_factor one_gene two_genes have_trait)
      (filter (no_mother people) (map fst people)))"
    by (rule prod_list_positive) (simp add: founder_factor_pos)
  moreover have "0 < prod_list (map (child_term people one_gene two_genes have_trait)
      (filter (\<lambda>k. \<not> no_mother people k) (map fst people)))"
    by (rule prod_list_positive) (simp add: child_term_pos [OF assms])
  ultimately show ?thesis
    by (simp add: joint_probability_eq [OF assms])
qed

lemma sums_add_p:
  assumes "dom (gene d) = {0, 1, 2}" and "dom (trait_dist d) = UNIV"
  shows "gene_sum (add_p one_gene two_genes have_trait p k d) = gene_sum d + p"
    and "trait_sum (add_p one_gene two_genes have_trait p k d) = trait_sum d + p"
proof -
  have "gene_count one_gene two_genes k = 0 \<or> gene_count one_gene two_genes k = 1
      \<or> gene_count one_gene two_genes k = 2"
    by (simp add: gene_count_def)
  then show "gene_sum (add_p one_gene two_genes have_trait p k d) = gene_sum d + p"
    by (auto simp: gene_sum_def add_p_def simp del: One_nat_def)
  show "trait_sum (add_p one_gene two_genes have_trait p k d) = trait_sum d + p"
    by (cases "k \<in> have_trait") (simp_all add: trait_sum_def add_p_def)
qed

lemma all_sums_Cons:
  "all_sums ((k, d) # ys) s \<longleftrightarrow> gene_sum d = s \<and> trait_sum d = s \<and> all_sums ys s"
  by (simp add: all_sums_def)

lemma all_sums_add_p:
  "table_shape probabilities \<Longrightarrow> all_sums probabilities s \<Longrightarrow>
     all_sums (map (\<lambda>(k, d). (k, add_p one_gene two_genes have_trait p k d)) probabilities)
       (s + p)"
proof (induction probabilities)
  case Nil
  show ?case by (simp add: all_sums_def)
next
  case (Cons a probabilities)
  obtain k d where a: "a = (k, d)" by (cases a)
  from Cons.prems(1) have sh: "dom (gene d) = {0, 1, 2}" "dom (trait_dist d) = UNIV"
      "table_shape probabilities"
    by (simp_all add: a table_shape_Cons)
  from Cons.prems(2) have su: "gene_sum d = s" "trait_sum d = s" "all_sums probabilities s"
    by (simp_all add: a all_sums_Cons)
  show ?case
    by (simp only: a list.map prod.case all_sums_Cons sums_add_p [OF sh(1,2)] su(1,2)
          Cons.IH [OF sh(3) su(3)] simp_thms)
qed

lemma trait_sum_zero_dist: "trait_sum zero_dist = 0"
  by (simp add: trait_sum_def zero_dist_def)

lemma all_sums_init: "all_sums (init_probabilities people) 0"
  unfolding all_sums_def init_probabilities_def
  by (simp add: gene_sum_zero_dist trait_sum_zero_dist)

lemma run_main_body_sums:
  assumes "\<forall>(og, tg, ht)\<in>set hyps. og \<inter> tg = {}"
    and "is_dict probabilities" and "table_shape probabilities"
    and "all_sums probabilities s"
  shows "\<exists>probs' s'. run_body (main_body people) hyps probabilities = Inr probs'
     \<and> is_dict probs' \<and> table_shape probs' \<and> all_sums probs' s'
     \<and> s \<le> s' \<and> (hyps \<noteq> [] \<longrightarrow> s < s')"
  using assms
proof (induction hyps arbitrary: probabilities s)
  case Nil
  then show ?case by auto
next
  case (Cons a hyps)
  obtain og tg ht where a: "a = (og, tg, ht)" by (cases a)
  from Cons.prems(1) have dj: "og \<inter> tg = {}" by (simp add: a)
  from main_body_eq [OF dj Cons.prems(2,3), of people ht] obtain p where
    jp: "joint_probability people og tg ht = Inr p" and
    m: "main_body people og tg ht probabilities
        = Inr (map (\<lambda>(k, d). (k, add_p og tg ht p k d)) probabilities)"
    by blast
  from joint_probability_pos [OF dj, of people ht] jp have pos: "0 < p" by simp
  let ?next = "map (\<lambda>(k, d). (k, add_p og tg ht p k d)) probabilities"
  from Cons.prems(1) have r: "\<forall>(og, tg, ht)\<in>set hyps. og \<inter> tg = {}" by simp
  from Cons.IH [OF r is_dict_map_entries [OF Cons.prems(2)]
      table_shape_add_p [OF Cons.prems(3)] all_sums_add_p [OF Cons.prems(3,4)], of og tg ht p]
  obtain probs' s' where
    "run_body (main_body people) hyps ?next = Inr probs'" "is_dict probs'" "table_shape probs'"
    "all_sums probs' s'" "s + p \<le> s'"
    by blast
  with pos show ?case by (simp add: a m) force
qed

lemma hypotheses_not_empty:
  assumes "is_dict people" and "lists_sets list_of (set (map fst people))"
  shows "hypotheses list_of people \<noteq> []"
proof -
  have "0 < length (hypotheses list_of people)"
    by (simp add: length_hypotheses [OF assms])
  then show ?thesis by simp
qed

lemma main_returns:
  assumes "is_dict people" and "lists_sets list_of (set (map fst people))"
  shows "\<exists>final. main list_of people = Inr final"
proof -
  from run_main_body_sums [OF hypotheses_disjoint [OF assms] is_dict_init [OF assms(1)]
      table_shape_init all_sums_init, of people]
    hypotheses_not_empty [OF assms]
  obtain probs s where
    run: "run_body (main_body people) (hypotheses list_of people) (init_probabilities people)
          = Inr probs"
    and dict: "is_dict probs" and shape: "table_shape probs"
    and sums: "all_sums probs s" and pos: "0 < s"
    by blast
  from sums pos have "\<not> (\<exists>(k, d)\<in>set probs. zero_sum d)"
    by (auto simp: all_sums_def zero_sum_def)
  then have "normalize probs = Inr (map (\<lambda>(k, d). (k, normalized d)) probs)"
    by (simp only: normalize_eq [OF dict shape] if_False)
  then show ?thesis by (simp add: main_def enumeration_run run)
qed

subsection \<open>A known trait has posterior one\<close>

lemma map_of_init:
  "k \<in> set (map fst people) \<Longrightarrow> map_of (init_probabilities people) k = Some zero_dist"
  unfolding init_probabilities_def by (induction people) auto

lemma run_main_body_keeps_zero:
  assumes "\<forall>(og, tg, ht)\<in>set hyps. og \<inter> tg = {} \<and> (k \<in> ht) = b"
    and "is_dict probabilities" and "table_shape probabilities"
    and "map_of probabilities k = Some d" and "trait_dist d (\<not> b) = Some 0"
  shows "\<exists>probs' d'. run_body (main_body people) hyps probabilities = Inr probs'
     \<and> is_dict probs' \<and> table_shape probs'
     \<and> map_of probs' k = Some d' \<and> trait_dist d' (\<not> b) = Some 0"
  using assms
proof (induction hyps arbitrary: probabilities d)
  case Nil
  then show ?case by simp
next
  case (Cons a hyps)
  obtain og tg ht where a: "a = (og, tg, ht)" by (cases a)
  from Cons.prems(1) have dj: "og \<inter> tg = {}" and kb: "(k \<in> ht) = b" by (simp_all add: a)
  from main_body_eq [OF dj Cons.prems(2,3), of people ht] obtain p where
    m: "main_body people og tg ht probabilities
        = Inr (map (\<lambda>(k, d). (k, add_p og tg ht p k d)) probabilities)"
    by blast
  let ?next = "map (\<lambda>(k, d). (k, add_p og tg ht p k d)) probabilities"
  from Cons.prems(1) have r: "\<forall>(og, tg, ht)\<in>set hyps. og \<inter> tg = {} \<and> (k \<in> ht) = b" by simp
  have l: "map_of ?next k = Some (add_p og tg ht p k d)"
    by (simp add: map_of_map_entries Cons.prems(4))
  have z: "trait_dist (add_p og tg ht p k d) (\<not> b) = Some 0"
    using Cons.prems(5) kb by (simp add: add_p_def)
  from Cons.IH [OF r is_dict_map_entries [OF Cons.prems(2)]
      table_shape_add_p [OF Cons.prems(3)] l z]
  show ?case by (simp add: a m)
qed

lemma normalized_known_trait:
  assumes "dom (trait_dist d) = UNIV" and "trait_dist d (\<not> b) = Some 0" and "trait_sum d \<noteq> 0"
  shows "trait_dist (normalized d) b = Some 1 \<and> trait_dist (normalized d) (\<not> b) = Some 0"
proof -
  from assms(1) have "b \<in> dom (trait_dist d)" by simp
  then obtain x where x: "trait_dist d b = Some x" by blast
  with assms(2,3) show ?thesis
    by (cases b) (simp_all add: normalized_def trait_sum_def)
qed

lemma hypotheses_agree_with_observation:
  assumes "is_dict people" and "lists_sets list_of (set (map fst people))"
    and "map_of people k = Some h" and "trait h = Some b"
  shows "\<forall>(og, tg, ht)\<in>set (hypotheses list_of people). og \<inter> tg = {} \<and> (k \<in> ht) = b"
proof -
  from assms(3) have m: "(k, h) \<in> set people" by (rule map_of_SomeD)
  have "og \<inter> tg = {} \<and> (k \<in> ht) = b" if "admissible people og tg ht" for og tg ht
  proof -
    from that have "og \<inter> tg = {}"
      and "\<forall>(p, h)\<in>set people. trait h = None \<or> trait h = Some (p \<in> ht)"
      by (simp_all add: admissible_def)
    with m have "trait h = None \<or> trait h = Some (k \<in> ht)" by fastforce
    with assms(4) \<open>og \<inter> tg = {}\<close> show ?thesis by simp
  qed
  then show ?thesis unfolding set_hypotheses [OF assms(1,2)] by simp
qed

text \<open>
  C4.  When \<open>main\<close> returns (so no sum was zero at normalization), a person whose
  observed trait is \<open>b\<close> ends with 1 in the trait bucket \<open>b\<close> and 0 in the other one:
  1 for True and 0 for False after a positive observation, 0 for True and 1 for False
  after a negative one.
\<close>

theorem known_trait_posterior:
  assumes "is_dict people" and "lists_sets list_of (set (map fst people))"
    and "main list_of people = Inr final"
    and "map_of people k = Some h" and "trait h = Some b"
  shows "\<exists>d. map_of final k = Some d \<and> trait_dist d b = Some 1 \<and> trait_dist d (\<not> b) = Some 0"
proof -
  from assms(4) have "(k, h) \<in> set people" by (rule map_of_SomeD)
  then have key: "k \<in> set (map fst people)" by force
  have z: "trait_dist zero_dist (\<not> b) = Some 0" by (simp add: zero_dist_def)
  from run_main_body_keeps_zero [OF hypotheses_agree_with_observation [OF assms(1,2,4,5)]
      is_dict_init [OF assms(1)] table_shape_init map_of_init [OF key] z, of people]
  obtain probs d where
    run: "run_body (main_body people) (hypotheses list_of people) (init_probabilities people)
          = Inr probs"
    and dict: "is_dict probs" and shape: "table_shape probs"
    and l: "map_of probs k = Some d" and zero: "trait_dist d (\<not> b) = Some 0"
    by blast
  from assms(3) have n: "normalize probs = Inr final"
    by (simp add: main_def enumeration_run run)
  have nz: "\<not> (\<exists>(k, d)\<in>set probs. zero_sum d)"
  proof
    assume "\<exists>(k, d)\<in>set probs. zero_sum d"
    then have "normalize probs = Inl ZeroDivisionError"
      by (simp only: normalize_eq [OF dict shape] if_True)
    with n show False by simp
  qed
  then have final: "final = map (\<lambda>(k, d). (k, normalized d)) probs"
    using n by (simp only: normalize_eq [OF dict shape] if_False) simp
  from l have "(k, d) \<in> set probs" by (rule map_of_SomeD)
  with nz have "\<not> zero_sum d" by blast
  then have ts: "trait_sum d \<noteq> 0" by (simp add: zero_sum_def)
  from table_shape_lookup [OF shape l] have dm: "dom (trait_dist d) = UNIV" by simp
  have "map_of final k = Some (normalized d)"
    by (simp add: final map_of_map_entries l)
  with normalized_known_trait [OF dm zero ts] show ?thesis by simp
qed

theorem known_trait_posterior_witness:
  "is_dict example_family \<and> lists_sets example_list_of (set (map fst example_family))
   \<and> (\<exists>final. main example_list_of example_family = Inr final
        \<and> (\<exists>d. map_of final ''James'' = Some d
              \<and> trait_dist d True = Some 1 \<and> trait_dist d False = Some 0)
        \<and> (\<exists>d. map_of final ''Lily'' = Some d
              \<and> trait_dist d False = Some 1 \<and> trait_dist d True = Some 0))"
proof -
  from main_returns [OF example_family_dict example_lists_sets]
  obtain final where f: "main example_list_of example_family = Inr final" by blast
  have j: "map_of example_family ''James''
      = Some \<lparr>name = ''James'', mother = None, father = None, trait = Some True\<rparr>"
    by (simp add: example_family_def)
  have l: "map_of example_family ''Lily''
      = Some \<lparr>name = ''Lily'', mother = None, father = None, trait = Some False\<rparr>"
    by (simp add: example_family_def)
  have 1: "\<exists>d. map_of final ''James'' = Some d
      \<and> trait_dist d True = Some 1 \<and> trait_dist d False = Some 0"
    using known_trait_posterior [OF example_family_dict example_lists_sets f j, of True]
    by simp
  have 2: "\<exists>d. map_of final ''Lily'' = Some d
      \<and> trait_dist d False = Some 1 \<and> trait_dist d True = Some 0"
    using known_trait_posterior [OF example_family_dict example_lists_sets f l, of False]
    by simp
  have e: "\<exists>final. main example_list_of example_family = Inr final
        \<and> (\<exists>d. map_of final ''James'' = Some d
              \<and> trait_dist d True = Some 1 \<and> trait_dist d False = Some 0)
        \<and> (\<exists>d. map_of final ''Lily'' = Some d
              \<and> trait_dist d False = Some 1 \<and> trait_dist d True = Some 0)"
    by (rule exI [of _ final]) (rule conjI [OF f conjI [OF 1 2]])
  show ?thesis
    by (rule conjI [OF example_family_dict conjI [OF example_lists_sets e]])
qed

subsection \<open>\<open>normalize\<close> a second time, in exact arithmetic\<close>

lemma normalized_shape:
  assumes "dom (gene d) = {0, 1, 2}" and "dom (trait_dist d) = UNIV"
  shows "dom (gene (normalized d)) = {0, 1, 2}" and "dom (trait_dist (normalized d)) = UNIV"
  using assms by (auto simp: normalized_def simp del: One_nat_def)

lemma table_shape_normalized:
  "table_shape probabilities \<Longrightarrow>
     table_shape (map (\<lambda>(k, d). (k, normalized d)) probabilities)"
proof (induction probabilities)
  case Nil
  show ?case by (simp add: table_shape_def)
next
  case (Cons a probabilities)
  obtain k d where a: "a = (k, d)" by (cases a)
  from Cons.prems have s: "dom (gene d) = {0, 1, 2}" "dom (trait_dist d) = UNIV"
      "table_shape probabilities"
    by (simp_all add: a table_shape_Cons)
  show ?case
    by (simp only: a list.map prod.case table_shape_Cons normalized_shape [OF s(1,2)]
          Cons.IH [OF s(3)] simp_thms)
qed

lemma normalized_idem:
  assumes "gene_sum d \<noteq> 0" and "trait_sum d \<noteq> 0"
  shows "normalized (normalized d) = normalized d"
proof -
  have g: "gene_sum (normalized d) = 1" by (rule gene_sum_normalized [OF assms(1)])
  have t: "trait_sum (normalized d) = 1" by (rule trait_sum_normalized [OF assms(2)])
  have "gene (normalized (normalized d)) = gene (normalized d)"
    unfolding normalized_def [of "normalized d"] g
    by (rule ext) (simp add: normalized_def del: One_nat_def)
  moreover have "trait_dist (normalized (normalized d)) = trait_dist (normalized d)"
    unfolding normalized_def [of "normalized d"] t
    by (rule ext) (simp add: normalized_def)
  moreover have "dist.more (normalized (normalized d)) = dist.more (normalized d)"
    by (simp add: normalized_def)
  ultimately show ?thesis by (rule dist.equality)
qed

text \<open>
  With exact division every sum is 1 after \<open>normalize\<close>, and a second \<open>normalize\<close>
  returns its argument.  This is a fact of the exact arithmetic of this model only: the
  rounding of doubles is not modelled, and with it a sum after \<open>normalize\<close> can miss 1 by
  a unit in the last place.
\<close>

lemma normalize_twice_exact:
  assumes "is_dict probabilities" and "table_shape probabilities"
    and "normalize probabilities = Inr probs'"
  shows "normalize probs' = Inr probs'"
proof -
  have nz: "\<not> (\<exists>(k, d)\<in>set probabilities. zero_sum d)"
  proof
    assume "\<exists>(k, d)\<in>set probabilities. zero_sum d"
    then have "normalize probabilities = Inl ZeroDivisionError"
      by (simp only: normalize_eq [OF assms(1,2)] if_True)
    with assms(3) show False by simp
  qed
  then have p: "probs' = map (\<lambda>(k, d). (k, normalized d)) probabilities"
    using assms(3) by (simp only: normalize_eq [OF assms(1,2)] if_False) simp
  have dict: "is_dict probs'" unfolding p by (rule is_dict_map_entries [OF assms(1)])
  have shape: "table_shape probs'" unfolding p by (rule table_shape_normalized [OF assms(2)])
  have nz': "\<not> (\<exists>(k, d)\<in>set probs'. zero_sum d)"
  proof
    assume "\<exists>(k, d)\<in>set probs'. zero_sum d"
    then obtain k d where m: "(k, d) \<in> set probabilities" and z: "zero_sum (normalized d)"
      unfolding p by auto
    from nz m have "gene_sum d \<noteq> 0" "trait_sum d \<noteq> 0" by (auto simp: zero_sum_def)
    then have "gene_sum (normalized d) = 1" "trait_sum (normalized d) = 1"
      by (simp_all add: gene_sum_normalized trait_sum_normalized)
    with z show False by (simp add: zero_sum_def)
  qed
  have "map (\<lambda>(k, d). (k, normalized d)) probs' = probs'"
    unfolding p using nz
    by (induction probabilities) (auto simp: zero_sum_def normalized_idem)
  then show ?thesis
    by (simp only: normalize_eq [OF dict shape] nz' if_False)
qed

end
